(* ===== verification/Prelude.thy ===== *)
theory Prelude
  imports Main "HOL-Library.Sublist"
begin

text \<open>
  Shared vocabulary of the development: the JavaScript string operations the sources
  call (\<open>String.prototype.split\<close>, \<open>join\<close>, \<open>trim\<close>, \<open>trimEnd\<close>,
  \<open>startsWith\<close>, \<open>endsWith\<close>, \<open>toLowerCase\<close>, \<open>replace\<close> with a string
  pattern), written once as executable HOL functions, with the lemmas the component
  theories share. A JavaScript string is modelled as a \<open>string\<close> (a list of
  \<open>char\<close>); whitespace and line terminators are the ASCII members of the ECMAScript
  classes (the non-ASCII ones, such as U+00A0 or U+2028, are outside the model).
  \<open>startsWith\<close> is \<open>prefix\<close> and \<open>endsWith\<close> is \<open>suffix\<close> of
  HOL-Library.Sublist.
\<close>

named_theorems js_simps "evaluation rules for the modelled JavaScript string builtins"

subsection \<open>Characters\<close>

abbreviation LF :: char where "LF \<equiv> CHR 0x0A"
abbreviation CR :: char where "CR \<equiv> CHR 0x0D"

definition ws_chars :: "char list" where
  "ws_chars = [CHR 0x09, CHR 0x0A, CHR 0x0B, CHR 0x0C, CHR 0x0D, CHR 0x20]"

text \<open>\<open>\s\<close> of a regular expression and the characters \<open>trim\<close> removes.\<close>

definition is_ws :: "char \<Rightarrow> bool" where
  "is_ws c \<longleftrightarrow> c \<in> set ws_chars"

text \<open>The line terminators, which \<open>.\<close> of a regular expression does not match.\<close>

definition is_lt :: "char \<Rightarrow> bool" where
  "is_lt c \<longleftrightarrow> c = LF \<or> c = CR"

declare ws_chars_def [js_simps] is_ws_def [js_simps] is_lt_def [js_simps]

lemma is_lt_is_ws [simp]: "is_lt c \<Longrightarrow> is_ws c"
  by (auto simp: is_lt_def is_ws_def ws_chars_def)

lemma LF_is_ws [simp]: "is_ws LF" and LF_is_lt [simp]: "is_lt LF"
  by (simp_all add: is_lt_def is_ws_def ws_chars_def)

subsection \<open>trim, trimEnd, toLowerCase\<close>

definition trim_start :: "string \<Rightarrow> string" where
  "trim_start s = dropWhile is_ws s"

definition trim_end :: "string \<Rightarrow> string" where
  "trim_end s = rev (dropWhile is_ws (rev s))"

definition trim :: "string \<Rightarrow> string" where
  "trim s = trim_start (trim_end s)"

declare trim_start_def [js_simps] trim_end_def [js_simps] trim_def [js_simps]

definition lower_char :: "char \<Rightarrow> char" where
  "lower_char c = (let n = (of_char c :: nat) in if 65 \<le> n \<and> n \<le> 90 then char_of (n + 32) else c)"

definition to_lower :: "string \<Rightarrow> string" where
  "to_lower s = map lower_char s"

declare lower_char_def [js_simps] to_lower_def [js_simps]

lemma trim_end_idem [simp]: "trim_end (trim_end s) = trim_end s"
proof -
  have "dropWhile is_ws (dropWhile is_ws (rev s)) = dropWhile is_ws (rev s)"
    by (cases "dropWhile is_ws (rev s)") (auto dest: dropWhile_eq_Cons_conv [THEN iffD1])
  then show ?thesis by (simp add: trim_end_def)
qed

lemma trim_end_no_trailing_ws: "trim_end s = [] \<or> \<not> is_ws (last (trim_end s))"
proof (cases "dropWhile is_ws (rev s)")
  case Nil
  then show ?thesis by (simp add: trim_end_def)
next
  case (Cons c cs)
  then have "\<not> is_ws c" by (auto dest: dropWhile_eq_Cons_conv [THEN iffD1])
  with Cons show ?thesis by (simp add: trim_end_def)
qed

lemma trim_end_append_ws: "\<forall>c \<in> set w. is_ws c \<Longrightarrow> trim_end (s @ w) = trim_end s"
  unfolding trim_end_def rev_append by (subst dropWhile_append2) auto

lemma trim_end_no_ws_last: "s = [] \<or> \<not> is_ws (last s) \<Longrightarrow> trim_end s = s"
  by (cases s rule: rev_cases) (auto simp: trim_end_def)

lemma trim_start_no_ws_hd: "s = [] \<or> \<not> is_ws (hd s) \<Longrightarrow> trim_start s = s"
  by (cases s) (auto simp: trim_start_def)

subsection \<open>split and join\<close>

text \<open>
  \<open>s.split(c)\<close> for a one-character separator: the pieces between the separators,
  always at least one (\<open>"".split(c)\<close> is \<open>[""]\<close>).
\<close>

fun split_on :: "char \<Rightarrow> string \<Rightarrow> string list" where
  "split_on c [] = [[]]"
| "split_on c (x # xs) =
     (if x = c then [] # split_on c xs
      else (case split_on c xs of [] \<Rightarrow> [[x]] | w # ws \<Rightarrow> (x # w) # ws))"

text \<open>\<open>ws.join(sep)\<close>.\<close>

fun join :: "string \<Rightarrow> string list \<Rightarrow> string" where
  "join sep [] = []"
| "join sep [w] = w"
| "join sep (w # v # ws) = w @ sep @ join sep (v # ws)"

lemma split_on_not_Nil [simp]: "split_on c s \<noteq> []"
  by (induction s) (auto split: list.split)

lemma split_on_Cons_other:
  "x \<noteq> c \<Longrightarrow> split_on c (x # xs) = (x # hd (split_on c xs)) # tl (split_on c xs)"
  by (cases "split_on c xs") auto

lemma split_on_no_sep: "w \<in> set (split_on c s) \<Longrightarrow> c \<notin> set w"
proof (induction s arbitrary: w)
  case Nil
  then show ?case by simp
next
  case (Cons x xs)
  then show ?case
    by (cases "split_on c xs") (auto split: if_splits)
qed

lemma split_on_no_sep_iff: "c \<notin> set s \<Longrightarrow> split_on c s = [s]"
  by (induction s) auto

lemma join_split_on [simp]: "join [c] (split_on c s) = s"
proof (induction s)
  case Nil
  then show ?case by simp
next
  case (Cons x xs)
  show ?case
  proof (cases "x = c")
    case True
    with Cons show ?thesis by (cases "split_on c xs") auto
  next
    case False
    with Cons show ?thesis by (cases "split_on c xs" rule: remdups_adj.cases) auto
  qed
qed

lemma split_on_append_sep:
  "split_on c (xs @ c # ys) = butlast (split_on c xs) @ (last (split_on c xs) # split_on c ys)"
proof (induction xs)
  case Nil
  then show ?case by simp
next
  case (Cons x xs)
  show ?case
  proof (cases "x = c")
    case True
    with Cons.IH show ?thesis by simp
  next
    case False
    with Cons.IH show ?thesis
      by (cases "split_on c xs") (simp_all add: split_on_Cons_other del: split_on.simps(2))
  qed
qed

lemma split_on_append_nosep:
  "c \<notin> set ys \<Longrightarrow> split_on c (xs @ ys) = butlast (split_on c xs) @ [last (split_on c xs) @ ys]"
proof (induction xs)
  case Nil
  then show ?case by (simp add: split_on_no_sep_iff)
next
  case (Cons x xs)
  show ?case
  proof (cases "x = c")
    case True
    with Cons show ?thesis by simp
  next
    case False
    with Cons show ?thesis
      by (cases "split_on c xs") (simp_all add: split_on_Cons_other del: split_on.simps(2))
  qed
qed

lemma split_on_append:
  "split_on c (xs @ ys) =
     butlast (split_on c xs) @ (last (split_on c xs) @ hd (split_on c ys)) # tl (split_on c ys)"
proof (induction ys arbitrary: xs rule: length_induct)
  case (1 ys)
  show ?case
  proof (cases "c \<in> set ys")
    case False
    then show ?thesis by (simp add: split_on_append_nosep split_on_no_sep_iff)
  next
    case True
    then obtain u v where ys: "ys = u @ c # v" and u: "c \<notin> set u"
      by (auto dest: split_list_first)
    have "split_on c (xs @ ys) = split_on c ((xs @ u) @ c # v)" by (simp add: ys)
    also have "\<dots> = butlast (split_on c (xs @ u)) @ last (split_on c (xs @ u)) # split_on c v"
      by (rule split_on_append_sep)
    finally show ?thesis
      using u by (simp add: ys split_on_append_sep split_on_append_nosep split_on_no_sep_iff)
  qed
qed

lemma set_join: "set (join sep ws) \<subseteq> set sep \<union> (\<Union>w \<in> set ws. set w)"
  by (induction sep ws rule: join.induct) auto

lemma split_on_subset: "w \<in> set (split_on c s) \<Longrightarrow> set w \<subseteq> set s"
proof (induction s arbitrary: w)
  case Nil
  then show ?case by simp
next
  case (Cons x xs)
  then show ?case by (cases "split_on c xs") (fastforce split: if_splits)+
qed

lemma length_split_on: "length (split_on c s) = Suc (count_list s c)"
  by (induction s) (auto split: list.split)

subsection \<open>replace with a string pattern\<close>

text \<open>
  \<open>s.indexOf(pat)\<close>: the index of the first occurrence of \<open>pat\<close> in \<open>s\<close>.
\<close>

fun first_occ :: "string \<Rightarrow> string \<Rightarrow> nat option" where
  "first_occ pat [] = (if pat = [] then Some 0 else None)"
| "first_occ pat (c # cs) =
     (if prefix pat (c # cs) then Some 0 else map_option Suc (first_occ pat cs))"

text \<open>
  GetSubstitution of ECMAScript for a match without capture groups: in the replacement
  string \<open>$$\<close> is \<open>$\<close>, \<open>$&\<close> is the matched text, \<open>$`\<close> the text before
  the match and \<open>$'\<close> the text after it; every other character stands for itself.
\<close>

fun get_substitution :: "string \<Rightarrow> string \<Rightarrow> string \<Rightarrow> string \<Rightarrow> string" where
  "get_substitution m bef aft [] = []"
| "get_substitution m bef aft [c] = [c]"
| "get_substitution m bef aft (c # d # r) =
     (if c = CHR ''$'' \<and> d = CHR ''$'' then CHR ''$'' # get_substitution m bef aft r
      else if c = CHR ''$'' \<and> d = CHR ''&'' then m @ get_substitution m bef aft r
      else if c = CHR ''$'' \<and> d = CHR 0x60 then bef @ get_substitution m bef aft r
      else if c = CHR ''$'' \<and> d = CHR 0x27 then aft @ get_substitution m bef aft r
      else c # get_substitution m bef aft (d # r))"

text \<open>\<open>s.replace(pat, rep)\<close> with a string \<open>pat\<close>: the first occurrence only.\<close>

definition js_replace :: "string \<Rightarrow> string \<Rightarrow> string \<Rightarrow> string" where
  "js_replace s pat rep =
     (case first_occ pat s of
        None \<Rightarrow> s
      | Some i \<Rightarrow> take i s @ get_substitution pat (take i s) (drop (i + length pat) s) rep
                    @ drop (i + length pat) s)"

declare js_replace_def [js_simps]

lemma first_occ_prefix: "prefix pat s \<Longrightarrow> first_occ pat s = Some 0"
  by (cases s) auto

lemma get_substitution_no_dollar:
  "CHR ''$'' \<notin> set rep \<Longrightarrow> get_substitution m bef aft rep = rep"
  by (induction m bef aft rep rule: get_substitution.induct) auto

lemma js_replace_prefix:
  "prefix pat s \<Longrightarrow> js_replace s pat rep = get_substitution pat [] (drop (length pat) s) rep @ drop (length pat) s"
  by (simp add: js_replace_def first_occ_prefix)

subsection \<open>Options and lists\<close>

lemma map_option_eq_Some_pair [simp]:
  "map_option (\<lambda>(b, r). (c # b, r)) m = Some (b', r') \<longleftrightarrow>
     (\<exists>b. b' = c # b \<and> m = Some (b, r'))"
  by (cases m) auto

lemma prefix_append_right_len:
  "length p \<le> length xs \<Longrightarrow> prefix p (xs @ ys) \<longleftrightarrow> prefix p xs"
  by (metis append_prefixD prefix_length_prefix prefix_order.refl prefix_prefix)

end
