(* ===== verification/Json.thy ===== *)
theory Json
  imports Prelude "HOL-Library.Monad_Syntax"
begin

text \<open>
  The JSON builtins that both ends of the chat stream call: \<open>JSON.stringify\<close>
  (\<open>route.ts\<close> line 92, \<open>page.tsx\<close> line 867), \<open>JSON.parse\<close> (\<open>route.ts\<close> line 88,
  \<open>page.tsx\<close> line 896), the property reads \<open>parsed.choices?.[0]?.delta?.content\<close> and
  \<open>parsed.content\<close>, JavaScript truthiness, and the string conversion that
  \<open>assistantContent += parsed.content\<close> applies.  They are library code, modelled from
  the ECMAScript specification.  A number is kept as its source text (\<open>JNum\<close>), which is
  what it prints as when that text is canonical.  An object is the list of its members
  in text order; a read takes the last member of a name, as \<open>JSON.parse\<close> keeps the
  last of repeated names.
\<close>

abbreviation DQ :: char where "DQ \<equiv> CHR 0x22"
abbreviation BSL :: char where "BSL \<equiv> CHR 0x5C"

datatype jval = JNull | JBool bool | JNum string | JStr string | JArr "jval list"
  | JObj "(string \<times> jval) list"

subsection \<open>JSON.stringify\<close>

definition hex_digit :: "nat \<Rightarrow> char" where
  "hex_digit n = (if n < 10 then char_of (48 + n) else char_of (87 + n))"

text \<open>QuoteJSONString: the two quoting characters, the five short escapes, and
  \<open>\u00xx\<close> with lower-case hexadecimal digits for the other control characters.\<close>

definition json_esc_char :: "char \<Rightarrow> string" where
  "json_esc_char c =
     (if c = DQ then [BSL, DQ]
      else if c = BSL then [BSL, BSL]
      else if c = CHR 0x08 then [BSL, CHR ''b'']
      else if c = CHR 0x0C then [BSL, CHR ''f'']
      else if c = LF then [BSL, CHR ''n'']
      else if c = CR then [BSL, CHR ''r'']
      else if c = CHR 0x09 then [BSL, CHR ''t'']
      else if (of_char c :: nat) < 32
        then [BSL, CHR ''u'', CHR ''0'', CHR ''0'', hex_digit (of_char c div 16), hex_digit (of_char c mod 16)]
      else [c])"

definition json_quote :: "string \<Rightarrow> string" where
  "json_quote s = DQ # concat (map json_esc_char s) @ [DQ]"

fun json_stringify :: "jval \<Rightarrow> string" where
  "json_stringify JNull = ''null''"
| "json_stringify (JBool b) = (if b then ''true'' else ''false'')"
| "json_stringify (JNum n) = n"
| "json_stringify (JStr s) = json_quote s"
| "json_stringify (JArr vs) = CHR ''['' # join '','' (map json_stringify vs) @ '']''"
| "json_stringify (JObj kvs) =
     CHR ''{'' # join '','' (map (\<lambda>(k, v). json_quote k @ CHR '':'' # json_stringify v) kvs) @ ''}''"

subsection \<open>Truthiness, property reads and string conversion\<close>

text \<open>A number is falsy when its value is zero: no digit of its mantissa is non-zero.\<close>

definition num_truthy :: "string \<Rightarrow> bool" where
  "num_truthy n = list_ex (\<lambda>c. c \<in> set ''123456789'') (takeWhile (\<lambda>c. c \<noteq> CHR ''e'' \<and> c \<noteq> CHR ''E'') n)"

fun truthy :: "jval \<Rightarrow> bool" where
  "truthy JNull = False"
| "truthy (JBool b) = b"
| "truthy (JNum n) = num_truthy n"
| "truthy (JStr s) = (s \<noteq> [])"
| "truthy (JArr vs) = True"
| "truthy (JObj kvs) = True"

text \<open>A property read, \<open>None\<close> for \<open>undefined\<close>.  The sources read the names
  \<open>choices\<close>, \<open>delta\<close>, \<open>content\<close> and the index \<open>0\<close>; none of them is a member of
  \<open>Object.prototype\<close>, \<open>Array.prototype\<close> or \<open>String.prototype\<close>.  A read on \<open>null\<close>
  throws, which both callers catch and treat as a skipped record, as they treat
  \<open>undefined\<close>.\<close>

fun get_prop :: "string \<Rightarrow> jval \<Rightarrow> jval option" where
  "get_prop k (JObj kvs) = map_of (rev kvs) k"
| "get_prop k (JArr vs) = (if k = ''0'' \<and> vs \<noteq> [] then Some (hd vs) else None)"
| "get_prop k (JStr s) = (if k = ''0'' \<and> s \<noteq> [] then Some (JStr [hd s]) else None)"
| "get_prop k _ = None"

text \<open>ToString, as \<open>+=\<close> on a string applies it: an array is joined with commas, its
  \<open>null\<close> elements printed as empty strings.\<close>

fun js_to_string :: "jval \<Rightarrow> string" where
  "js_to_string JNull = ''null''"
| "js_to_string (JBool b) = (if b then ''true'' else ''false'')"
| "js_to_string (JNum n) = n"
| "js_to_string (JStr s) = s"
| "js_to_string (JArr vs) = join '','' (map (\<lambda>v. if v = JNull then [] else js_to_string v) vs)"
| "js_to_string (JObj kvs) = ''[object Object]''"

subsection \<open>JSON.parse\<close>

definition is_json_ws :: "char \<Rightarrow> bool" where
  "is_json_ws c \<longleftrightarrow> c = CHR '' '' \<or> c = CHR 0x09 \<or> c = LF \<or> c = CR"

abbreviation skip_ws :: "string \<Rightarrow> string" where
  "skip_ws \<equiv> dropWhile is_json_ws"

definition is_digit :: "char \<Rightarrow> bool" where
  "is_digit c \<longleftrightarrow> 48 \<le> (of_char c :: nat) \<and> (of_char c :: nat) \<le> 57"

definition hex_val :: "char \<Rightarrow> nat option" where
  "hex_val c = (let n = (of_char c :: nat) in
     if 48 \<le> n \<and> n \<le> 57 then Some (n - 48)
     else if 97 \<le> n \<and> n \<le> 102 then Some (n - 87)
     else if 65 \<le> n \<and> n \<le> 70 then Some (n - 55)
     else None)"

definition parse_hex4 :: "string \<Rightarrow> nat option" where
  "parse_hex4 s = (let ds = map hex_val (take 4 s) in
     if 4 \<le> length s \<and> list_all (\<lambda>d. d \<noteq> None) ds
     then Some (foldl (\<lambda>n d. 16 * n + the d) 0 ds) else None)"

definition short_escape :: "char \<Rightarrow> char option" where
  "short_escape e =
     map_of [(DQ, DQ), (BSL, BSL), (CHR ''/'', CHR ''/''), (CHR ''b'', CHR 0x08), (CHR ''f'', CHR 0x0C),
             (CHR ''n'', LF), (CHR ''r'', CR), (CHR ''t'', CHR 0x09)] e"

text \<open>The characters of a string literal after its opening quote, up to and
  including the closing quote.  A \<open>\uXXXX\<close> escape above \<open>0xFF\<close> names a character
  outside the 8-bit text of the model and is refused.\<close>

function parse_chars :: "string \<Rightarrow> (string \<times> string) option" where
  "parse_chars [] = None"
| "parse_chars (c # cs) =
     (if c = DQ then Some ([], cs)
      else if c = BSL then
        (case cs of
           [] \<Rightarrow> None
         | e # es \<Rightarrow>
             (case short_escape e of
                Some d \<Rightarrow> map_option (\<lambda>(s, r). (d # s, r)) (parse_chars es)
              | None \<Rightarrow>
                  if e = CHR ''u'' then
                    (case parse_hex4 es of
                       Some n \<Rightarrow>
                         if n < 256 then map_option (\<lambda>(s, r). (char_of n # s, r)) (parse_chars (drop 4 es))
                         else None
                     | None \<Rightarrow> None)
                  else None))
      else if (of_char c :: nat) < 32 then None
      else map_option (\<lambda>(s, r). (c # s, r)) (parse_chars cs))"
  by pat_completeness auto
termination
  by (relation "measure length") auto

definition scan_digits :: "string \<Rightarrow> (string \<times> string) option" where
  "scan_digits s = (let ds = takeWhile is_digit s in if ds = [] then None else Some (ds, drop (length ds) s))"

definition scan_int :: "string \<Rightarrow> (string \<times> string) option" where
  "scan_int s = (case s of [] \<Rightarrow> None | c # r \<Rightarrow> if c = CHR ''0'' then Some (''0'', r) else scan_digits s)"

definition scan_frac :: "string \<Rightarrow> (string \<times> string) option" where
  "scan_frac s = (case s of
      c # r \<Rightarrow> if c = CHR ''.'' then map_option (\<lambda>(d, r'). (c # d, r')) (scan_digits r) else Some ([], s)
    | [] \<Rightarrow> Some ([], []))"

definition scan_exp :: "string \<Rightarrow> (string \<times> string) option" where
  "scan_exp s = (case s of
      c # r \<Rightarrow>
        if c = CHR ''e'' \<or> c = CHR ''E'' then
          (let (sg, r2) = (case r of x # r' \<Rightarrow> if x = CHR ''+'' \<or> x = CHR ''-'' then ([x], r') else ([], r)
                                   | [] \<Rightarrow> ([], r))
           in map_option (\<lambda>(d, r3). (c # sg @ d, r3)) (scan_digits r2))
        else Some ([], s)
    | [] \<Rightarrow> Some ([], []))"

definition scan_number :: "string \<Rightarrow> (string \<times> string) option" where
  "scan_number s = do {
     let (m, s1) = (case s of c # r \<Rightarrow> if c = CHR ''-'' then ([c], r) else ([], s) | [] \<Rightarrow> ([], s));
     (i, s2) \<leftarrow> scan_int s1;
     (f, s3) \<leftarrow> scan_frac s2;
     (e, s4) \<leftarrow> scan_exp s3;
     Some (m @ i @ f @ e, s4)
   }"

text \<open>Values, arrays and objects by mutual recursion on a fuel bound of the nesting and
  the number of elements; \<open>JSON_parse\<close> gives the length of the text, which each level
  and each element consumes at least one character of.\<close>

fun parse_value :: "nat \<Rightarrow> string \<Rightarrow> (jval \<times> string) option"
and parse_elems :: "nat \<Rightarrow> jval list \<Rightarrow> string \<Rightarrow> (jval list \<times> string) option"
and parse_members :: "nat \<Rightarrow> (string \<times> jval) list \<Rightarrow> string \<Rightarrow> ((string \<times> jval) list \<times> string) option"
where
  "parse_value 0 s = None"
| "parse_value (Suc n) s =
     (case skip_ws s of
        [] \<Rightarrow> None
      | c # r \<Rightarrow>
          if c = CHR ''{'' then
            (case skip_ws r of
               x # r' \<Rightarrow> if x = CHR ''}'' then Some (JObj [], r')
                         else map_option (\<lambda>(kvs, r'). (JObj kvs, r')) (parse_members n [] r)
             | [] \<Rightarrow> None)
          else if c = CHR ''['' then
            (case skip_ws r of
               x # r' \<Rightarrow> if x = CHR '']'' then Some (JArr [], r')
                         else map_option (\<lambda>(vs, r'). (JArr vs, r')) (parse_elems n [] r)
             | [] \<Rightarrow> None)
          else if c = DQ then map_option (\<lambda>(s, r'). (JStr s, r')) (parse_chars r)
          else if prefix ''true'' (c # r) then Some (JBool True, drop 3 r)
          else if prefix ''false'' (c # r) then Some (JBool False, drop 4 r)
          else if prefix ''null'' (c # r) then Some (JNull, drop 3 r)
          else map_option (\<lambda>(m, r'). (JNum m, r')) (scan_number (c # r)))"
| "parse_elems 0 acc s = None"
| "parse_elems (Suc n) acc s = do {
     (v, r) \<leftarrow> parse_value n s;
     (case skip_ws r of
        x # r' \<Rightarrow> if x = CHR '','' then parse_elems n (acc @ [v]) r'
                  else if x = CHR '']'' then Some (acc @ [v], r') else None
      | [] \<Rightarrow> None)
   }"
| "parse_members 0 acc s = None"
| "parse_members (Suc n) acc s =
     (case skip_ws s of
        c # r \<Rightarrow>
          if c = DQ then do {
            (k, r1) \<leftarrow> parse_chars r;
            (case skip_ws r1 of
               x # r2 \<Rightarrow>
                 if x = CHR '':'' then do {
                   (v, r3) \<leftarrow> parse_value n r2;
                   (case skip_ws r3 of
                      y # r4 \<Rightarrow> if y = CHR '','' then parse_members n (acc @ [(k, v)]) r4
                                else if y = CHR ''}'' then Some (acc @ [(k, v)], r4) else None
                    | [] \<Rightarrow> None)
                 }
                 else None
             | [] \<Rightarrow> None)
          }
          else None
      | [] \<Rightarrow> None)"

definition JSON_parse :: "string \<Rightarrow> jval option" where
  "JSON_parse s = do {
     (v, r) \<leftarrow> parse_value (length s) s;
     if skip_ws r = [] then Some v else None
   }"


definition num_end :: "string \<Rightarrow> bool" where
  "num_end r = (case r of [] \<Rightarrow> True | c # _ \<Rightarrow> \<not> is_digit c \<and> c \<notin> set ''.eE+-'')"

text \<open>Well-formed values: every number is the complete text of one JSON number.\<close>

fun wf_jval :: "jval \<Rightarrow> bool" where
  "wf_jval (JNum n) = (scan_number n = Some (n, []))"
| "wf_jval (JArr vs) = list_all wf_jval vs"
| "wf_jval (JObj kvs) = list_all (\<lambda>(k, v). wf_jval v) kvs"
| "wf_jval _ = True"

definition member_text :: "string \<times> jval \<Rightarrow> string" where
  "member_text kv = json_quote (fst kv) @ CHR '':'' # json_stringify (snd kv)"

abbreviation parses :: "jval \<Rightarrow> bool" where
  "parses v \<equiv> \<forall>n r. length (json_stringify v) \<le> n \<longrightarrow> num_end r \<longrightarrow>
     parse_value n (json_stringify v @ r) = Some (v, r)"

subsection \<open>Round trip of JSON.stringify and JSON.parse\<close>


lemma hex_val_hex_digit: "n < 16 \<Longrightarrow> hex_val (hex_digit n) = Some n"
  by (auto simp: hex_val_def hex_digit_def Let_def)

lemma parse_hex4_esc:
  assumes "k < 32"
  shows "parse_hex4 (CHR ''0'' # CHR ''0'' # hex_digit (k div 16) # hex_digit (k mod 16) # r) = Some k"
proof -
  have "k div 16 < 16" "k mod 16 < 16" using assms by auto
  moreover have "hex_val (CHR ''0'') = Some 0" by (simp add: hex_val_def)
  ultimately show ?thesis
    by (simp add: parse_hex4_def hex_val_hex_digit)
qed

lemma parse_chars_esc:
  assumes "parse_chars t = Some (s, r)"
  shows "parse_chars (json_esc_char c @ t) = Some (c # s, r)"
proof -
  let ?k = "of_char c :: nat"
  consider "c = DQ" | "c = BSL" | "c = CHR 0x08" | "c = CHR 0x0C" | "c = LF" | "c = CR" | "c = CHR 0x09"
    | "c \<notin> {DQ, BSL, CHR 0x08, CHR 0x0C, LF, CR, CHR 0x09}" "?k < 32"
    | "c \<notin> {DQ, BSL, CHR 0x08, CHR 0x0C, LF, CR, CHR 0x09}" "\<not> ?k < 32"
    by blast
  then show ?thesis
  proof cases
    case 8
    then have "parse_hex4 (CHR ''0'' # CHR ''0'' # hex_digit (?k div 16) # hex_digit (?k mod 16) # t) = Some ?k"
      by (intro parse_hex4_esc) simp
    with 8 assms show ?thesis
      by (simp add: json_esc_char_def short_escape_def)
  qed (use assms in \<open>simp_all add: json_esc_char_def short_escape_def\<close>)
qed

lemma parse_chars_quote:
  "parse_chars (concat (map json_esc_char s) @ DQ # r) = Some (s, r)"
  by (induction s) (simp_all add: parse_chars_esc)



lemma scan_digits_ext:
  "scan_digits s = Some (a, t) \<Longrightarrow> num_end r \<Longrightarrow> scan_digits (s @ r) = Some (a, t @ r)"
proof (induction s arbitrary: a t)
  case Nil
  then show ?case by (simp add: scan_digits_def)
next
  case (Cons c s)
  show ?case
  proof (cases "is_digit c")
    case False
    then show ?thesis using Cons.prems by (simp add: scan_digits_def)
  next
    case True
    show ?thesis
    proof (cases "takeWhile is_digit s = []")
      case True
      with \<open>is_digit c\<close> Cons.prems have "a = [c]" "t = s" by (auto simp: scan_digits_def)
      moreover have "takeWhile is_digit (s @ r) = []"
        using True Cons.prems \<open>t = s\<close> \<open>a = [c]\<close>
        by (cases s; cases r) (auto simp: num_end_def)
      ultimately show ?thesis using \<open>is_digit c\<close> by (simp add: scan_digits_def)
    next
      case False
      then have s: "scan_digits s = Some (takeWhile is_digit s, drop (length (takeWhile is_digit s)) s)"
        by (simp add: scan_digits_def Let_def)
      with Cons.prems \<open>is_digit c\<close> have "a = c # takeWhile is_digit s" "t = drop (length (takeWhile is_digit s)) s"
        by (auto simp: scan_digits_def)
      with Cons.IH [OF s] Cons.prems \<open>is_digit c\<close> show ?thesis
        by (auto simp: scan_digits_def Let_def split: if_splits)
    qed
  qed
qed

lemma scan_int_ext:
  "scan_int s = Some (a, t) \<Longrightarrow> num_end r \<Longrightarrow> scan_int (s @ r) = Some (a, t @ r)"
  by (cases s) (auto simp: scan_int_def dest: scan_digits_ext [where r = r] split: if_splits)

lemma scan_frac_ext:
  "scan_frac s = Some (a, t) \<Longrightarrow> num_end r \<Longrightarrow> scan_frac (s @ r) = Some (a, t @ r)"
  by (cases s; cases r) (auto simp: scan_frac_def dest: scan_digits_ext [where r = r] split: if_splits,
    auto simp: num_end_def)

lemma scan_digits_Nil [simp]: "scan_digits [] = None"
  by (simp add: scan_digits_def)

lemma scan_exp_ext:
  assumes "scan_exp s = Some (a, t)" and "num_end r"
  shows "scan_exp (s @ r) = Some (a, t @ r)"
proof (cases s)
  case Nil
  with assms show ?thesis by (cases r) (auto simp: scan_exp_def num_end_def)
next
  case (Cons c s')
  show ?thesis
  proof (cases "c = CHR ''e'' \<or> c = CHR ''E''")
    case False
    with assms Cons show ?thesis by (auto simp: scan_exp_def)
  next
    case True
    then have "s' \<noteq> []" using assms Cons by (auto simp: scan_exp_def)
    then obtain x s'' where s': "s' = x # s''" by (cases s') auto
    show ?thesis
    proof (cases "x = CHR ''+'' \<or> x = CHR ''-''")
      case True
      with \<open>c = CHR ''e'' \<or> c = CHR ''E''\<close> assms Cons s' show ?thesis
        by (auto simp: scan_exp_def dest: scan_digits_ext [where r = r])
    next
      case False
      with \<open>c = CHR ''e'' \<or> c = CHR ''E''\<close> assms Cons s' show ?thesis
        by (auto simp: scan_exp_def dest: scan_digits_ext [where s = "x # s''" and r = r])
    qed
  qed
qed

lemma scan_number_ext:
  assumes "scan_number s = Some (a, t)" and "num_end r"
  shows "scan_number (s @ r) = Some (a, t @ r)"
proof -
  obtain m s1 where sg: "(case s of c # r \<Rightarrow> if c = CHR ''-'' then ([c], r) else ([], s) | [] \<Rightarrow> ([], s)) = (m, s1)"
    by fastforce
  have "s \<noteq> []" using assms by (auto simp: scan_number_def scan_int_def)
  then have sg': "(case s @ r of c # r' \<Rightarrow> if c = CHR ''-'' then ([c], r') else ([], s @ r) | [] \<Rightarrow> ([], s @ r)) = (m, s1 @ r)"
    using sg by (cases s) (auto split: if_splits)
  from assms(1) sg have "do { (i, s2) \<leftarrow> scan_int s1; (f, s3) \<leftarrow> scan_frac s2; (e, s4) \<leftarrow> scan_exp s3;
      Some (m @ i @ f @ e, s4) } = Some (a, t)"
    by (simp add: scan_number_def)
  then obtain i s2 f s3 e where
    "scan_int s1 = Some (i, s2)" "scan_frac s2 = Some (f, s3)" "scan_exp s3 = Some (e, t)" "a = m @ i @ f @ e"
    by (auto simp: bind_eq_Some_conv)
  with sg' assms(2) show ?thesis
    by (simp add: scan_number_def scan_int_ext scan_frac_ext scan_exp_ext)
qed



lemma scan_number_start:
  "scan_number s = Some (a, t) \<Longrightarrow> \<exists>c s'. s = c # s' \<and> (c = CHR ''-'' \<or> is_digit c)"
  by (cases s) (auto simp: scan_number_def scan_int_def scan_digits_def bind_eq_Some_conv is_digit_def
      split: if_splits list.splits)

lemma json_stringify_JObj: "json_stringify (JObj kvs) = CHR ''{'' # join '','' (map member_text kvs) @ ''}''"
proof -
  have "(\<lambda>(k, v). json_quote k @ CHR '':'' # json_stringify v) = member_text"
    by (auto simp: member_text_def fun_eq_iff)
  then show ?thesis by simp
qed

lemma num_end_punct [simp]:
  "num_end (CHR '','' # r)" "num_end (CHR '']'' # r)" "num_end (CHR ''}'' # r)" "num_end []"
  by (simp_all add: num_end_def is_digit_def)

lemma parse_value_num:
  assumes "scan_number m = Some (m, [])" "num_end r"
  shows "parse_value (Suc n) (m @ r) = Some (JNum m, r)"
proof -
  obtain c m' where m: "m = c # m'" "c = CHR ''-'' \<or> is_digit c"
    using scan_number_start [OF assms(1)] by blast
  have "scan_number (m @ r) = Some (m, r)" using scan_number_ext [OF assms] by simp
  moreover have "c \<noteq> CHR ''{''" "c \<noteq> CHR ''[''" "c \<noteq> DQ" "c \<noteq> CHR ''t''" "c \<noteq> CHR ''f''"
    "c \<noteq> CHR ''n''" "\<not> is_json_ws c"
    using m(2) by (auto simp: is_digit_def is_json_ws_def)
  ultimately show ?thesis by (simp add: m(1))
qed

lemma parse_value_str: "parse_value (Suc n) (json_quote s @ r) = Some (JStr s, r)"
  by (simp add: json_quote_def is_json_ws_def parse_chars_quote)

lemma parse_elems_join:
  assumes "\<forall>v \<in> set vs. parses v" "vs \<noteq> []" "length (join '','' (map json_stringify vs)) < n"
  shows "parse_elems n acc (join '','' (map json_stringify vs) @ CHR '']'' # r) = Some (acc @ vs, r)"
  using assms
proof (induction vs arbitrary: acc n rule: induct_list012)
  case (2 v)
  then obtain n' where "n = Suc n'" "length (json_stringify v) \<le> n'" by (cases n) auto
  with 2 show ?case by (simp add: is_json_ws_def)
next
  case (3 v w vs)
  then obtain n' where n: "n = Suc n'" "length (json_stringify v) \<le> n'"
    "length (join '','' (map json_stringify (w # vs))) < n'" by (cases n) auto
  with "3.prems" have "parse_value n' (json_stringify v @ CHR '','' # join '','' (map json_stringify (w # vs)) @ CHR '']'' # r) =
      Some (v, CHR '','' # join '','' (map json_stringify (w # vs)) @ CHR '']'' # r)"
    by simp
  with n "3.IH"(2) [where acc = "acc @ [v]" and n = n'] "3.prems" show ?case by (simp add: is_json_ws_def)
qed simp

lemma parse_members_step:
  "parse_members (Suc n) acc (member_text kv @ t) = do {
     (v, r3) \<leftarrow> parse_value n (json_stringify (snd kv) @ t);
     (case skip_ws r3 of
        y # r4 \<Rightarrow> if y = CHR '','' then parse_members n (acc @ [(fst kv, v)]) r4
                  else if y = CHR ''}'' then Some (acc @ [(fst kv, v)], r4) else None
      | [] \<Rightarrow> None)
   }"
  by (simp add: member_text_def json_quote_def is_json_ws_def parse_chars_quote)

lemma length_member_text: "length (json_stringify (snd kv)) < length (member_text kv)"
  by (simp add: member_text_def)

lemma parse_members_join:
  assumes "\<forall>kv \<in> set kvs. parses (snd kv)" "kvs \<noteq> []" "length (join '','' (map member_text kvs)) < n"
  shows "parse_members n acc (join '','' (map member_text kvs) @ CHR ''}'' # r) = Some (acc @ kvs, r)"
  using assms
proof (induction kvs arbitrary: acc n rule: induct_list012)
  case (2 kv)
  then obtain n' where n: "n = Suc n'" "length (json_stringify (snd kv)) \<le> n'"
    using length_member_text [of kv] by (cases n) auto
  with 2 have "parse_value n' (json_stringify (snd kv) @ CHR ''}'' # r) = Some (snd kv, CHR ''}'' # r)"
    by simp
  with n show ?case
    by (simp only: n list.map join.simps append_assoc parse_members_step) (simp add: is_json_ws_def)
next
  case (3 kv kw kvs)
  let ?t = "CHR '','' # join '','' (map member_text (kw # kvs)) @ CHR ''}'' # r"
  from "3.prems"(3) obtain n' where n: "n = Suc n'" "length (json_stringify (snd kv)) \<le> n'"
    "length (join '','' (map member_text (kw # kvs))) < n'"
    using length_member_text [of kv] by (cases n) auto
  with "3.prems" have "parse_value n' (json_stringify (snd kv) @ ?t) = Some (snd kv, ?t)"
    by simp
  moreover have "parse_members n' (acc @ [kv]) (join '','' (map member_text (kw # kvs)) @ CHR ''}'' # r) =
      Some ((acc @ [kv]) @ kw # kvs, r)"
    using n "3.IH"(2) [where acc = "acc @ [kv]" and n = n'] "3.prems" by simp
  ultimately show ?case
    by (simp only: n list.map join.simps append_assoc append_Cons append_Nil parse_members_step)
      (simp add: is_json_ws_def)
qed simp

lemma stringify_first:
  assumes "wf_jval v"
  shows "json_stringify v \<noteq> [] \<and> \<not> is_json_ws (hd (json_stringify v)) \<and>
    hd (json_stringify v) \<noteq> CHR '']'' \<and> hd (json_stringify v) \<noteq> CHR ''}''"
proof (cases v)
  case (JNum n)
  with assms have "scan_number n = Some (n, [])" by simp
  then obtain c s' where "n = c # s'" "c = CHR ''-'' \<or> is_digit c"
    by (blast dest: scan_number_start)
  with JNum show ?thesis by (auto simp: is_json_ws_def is_digit_def)
next
  case (JBool b)
  then show ?thesis by (cases b) (simp_all add: is_json_ws_def)
qed (simp_all add: json_quote_def is_json_ws_def)

lemma join_first:
  assumes "ws \<noteq> []" "hd ws = c # t"
  shows "\<exists>t'. join sep ws @ r = c # t'"
  using assms by (cases "(sep, ws)" rule: join.cases) auto

lemma parse_value_arr_step:
  assumes "t = c # t'" "\<not> is_json_ws c" "c \<noteq> CHR '']''"
  shows "parse_value (Suc n) (CHR ''['' # t) = map_option (\<lambda>(vs, y). (JArr vs, y)) (parse_elems n [] t)"
  using assms by (simp add: is_json_ws_def)

lemma parse_value_obj_step:
  assumes "t = c # t'" "\<not> is_json_ws c" "c \<noteq> CHR ''}''"
  shows "parse_value (Suc n) (CHR ''{'' # t) = map_option (\<lambda>(kvs, y). (JObj kvs, y)) (parse_members n [] t)"
  using assms by (simp add: is_json_ws_def)

lemma parses_atom:
  assumes "\<And>n r. num_end r \<Longrightarrow> parse_value (Suc n) (json_stringify v @ r) = Some (v, r)"
    and "json_stringify v \<noteq> []"
  shows "parses v"
proof (intro allI impI)
  fix n r
  assume "length (json_stringify v) \<le> n" "num_end r"
  with assms show "parse_value n (json_stringify v @ r) = Some (v, r)" by (cases n) auto
qed

lemma parses_JArr:
  assumes "\<And>v. v \<in> set vs \<Longrightarrow> wf_jval v \<Longrightarrow> parses v" and "wf_jval (JArr vs)"
  shows "parses (JArr vs)"
  proof (intro allI impI)
    fix n r
    assume len: "length (json_stringify (JArr vs)) \<le> n" and "num_end r"
    show "parse_value n (json_stringify (JArr vs) @ r) = Some (JArr vs, r)"
    proof (cases "vs = []")
      case True
      with len show ?thesis by (cases n) (simp_all add: is_json_ws_def)
    next
      case False
      from len obtain n' where n: "n = Suc n'" "length (join '','' (map json_stringify vs)) < n'"
        by (cases n) auto
      have "\<forall>v \<in> set vs. parses v" using assms by (simp add: list_all_iff)
      note e = parse_elems_join [OF this False n(2), of "[]" r]
      from assms(2) False have "wf_jval (hd vs)" by (cases vs) simp_all
      from stringify_first [OF this] obtain c t where c: "json_stringify (hd vs) = c # t" "\<not> is_json_ws c" "c \<noteq> CHR '']''"
        by (cases "json_stringify (hd vs)") auto
      from c(1) False obtain t' where eq: "join '','' (map json_stringify vs) @ CHR '']'' # r = c # t'"
        using join_first [of "map json_stringify vs" c t "'',''" "CHR '']'' # r"] by (auto simp: hd_map)
      have s: "json_stringify (JArr vs) @ r = CHR ''['' # join '','' (map json_stringify vs) @ CHR '']'' # r"
        by simp
      show ?thesis
        unfolding s n(1) parse_value_arr_step [OF eq c(2,3)] using e by simp
    qed
  qed

lemma parses_JObj:
  assumes "\<And>kv. kv \<in> set kvs \<Longrightarrow> wf_jval (snd kv) \<Longrightarrow> parses (snd kv)" and "wf_jval (JObj kvs)"
  shows "parses (JObj kvs)"
  proof (intro allI impI)
    fix n r
    assume len: "length (json_stringify (JObj kvs)) \<le> n" and "num_end r"
    show "parse_value n (json_stringify (JObj kvs) @ r) = Some (JObj kvs, r)"
    proof (cases "kvs = []")
      case True
      with len show ?thesis by (cases n) (simp_all add: is_json_ws_def)
    next
      case False
      from len [unfolded json_stringify_JObj] obtain n' where n: "n = Suc n'" "length (join '','' (map member_text kvs)) < n'"
        by (cases n) auto
      have "\<forall>kv \<in> set kvs. parses (snd kv)"
        using assms by (fastforce simp: list_all_iff)
      note e = parse_members_join [OF this False n(2), of "[]" r]
      from False obtain t' where eq: "join '','' (map member_text kvs) @ CHR ''}'' # r = DQ # t'"
        using join_first [of "map member_text kvs" DQ _ "'',''" "CHR ''}'' # r"]
        by (cases kvs) (auto simp: member_text_def json_quote_def)
      have s: "json_stringify (JObj kvs) @ r = CHR ''{'' # join '','' (map member_text kvs) @ CHR ''}'' # r"
        by (simp only: json_stringify_JObj) simp
      have d: "\<not> is_json_ws DQ" "DQ \<noteq> CHR ''}''" by (simp_all add: is_json_ws_def)
      show ?thesis
        unfolding s n(1) parse_value_obj_step [OF eq d] using e by simp
    qed
  qed

lemma parse_stringify: "wf_jval v \<Longrightarrow> parses v"
proof (induction v)
  case (JArr vs)
  then show ?case by (intro parses_JArr) auto
next
  case (JObj kvs)
  then show ?case by (intro parses_JObj) (auto simp: list_all_iff)
next
  case (JNum m)
  then show ?case
    by (intro parses_atom) (auto simp: parse_value_num simp del: parse_value.simps dest: scan_number_start)
next
  case (JStr s)
  show ?case
    by (rule parses_atom) (simp_all only: json_stringify.simps parse_value_str, simp add: json_quote_def)
next
  case JNull
  show ?case by (rule parses_atom) (simp_all add: is_json_ws_def)
next
  case (JBool b)
  show ?case by (rule parses_atom) (cases b; simp add: is_json_ws_def)+
qed

theorem JSON_parse_stringify:
  assumes "wf_jval v"
  shows "JSON_parse (json_stringify v) = Some v"
proof -
  have "parse_value (length (json_stringify v)) (json_stringify v @ []) = Some (v, [])"
    using parse_stringify [OF assms] by (simp only: num_end_punct(4) order_refl simp_thms)
  then show ?thesis by (simp add: JSON_parse_def)
qed

subsection \<open>JSON.parse returns well-formed values\<close>


lemma takeWhile_dropWhile_split:
  "(takeWhile P s = a \<and> dropWhile P s = t) \<longleftrightarrow> s = a @ t \<and> (\<forall>c \<in> set a. P c) \<and> (t = [] \<or> \<not> P (hd t))"
proof (induction a arbitrary: s)
  case Nil
  then show ?case by (cases s) auto
next
  case (Cons x a)
  then show ?case by (cases s) auto
qed

lemma scan_digits_iff:
  "scan_digits s = Some (a, t) \<longleftrightarrow>
     s = a @ t \<and> a \<noteq> [] \<and> (\<forall>c \<in> set a. is_digit c) \<and> (t = [] \<or> \<not> is_digit (hd t))"
proof -
  have "scan_digits s = Some (a, t) \<longleftrightarrow> a \<noteq> [] \<and> takeWhile is_digit s = a \<and> dropWhile is_digit s = t"
    by (auto simp: scan_digits_def Let_def dropWhile_eq_drop)
  then show ?thesis using takeWhile_dropWhile_split [of is_digit s a t] by blast
qed

lemma scan_digits_trunc:
  "scan_digits (a @ t @ r) = Some (a, t @ r) \<Longrightarrow> scan_digits (a @ t) = Some (a, t)"
  by (cases t) (auto simp: scan_digits_iff)

lemma scan_int_app: "scan_int s = Some (a, t) \<Longrightarrow> s = a @ t"
  by (cases s) (auto simp: scan_int_def scan_digits_iff split: if_splits)

lemma scan_int_not_Nil: "scan_int s = Some (a, t) \<Longrightarrow> a \<noteq> []"
  by (cases s) (auto simp: scan_int_def scan_digits_iff split: if_splits)

lemma scan_int_trunc:
  assumes "scan_int (a @ t @ r) = Some (a, t @ r)"
  shows "scan_int (a @ t) = Some (a, t)"
proof (cases a)
  case Nil
  with assms show ?thesis by (cases "t @ r") (auto simp: scan_int_def scan_digits_iff split: if_splits)
next
  case (Cons x a')
  with assms show ?thesis
    using scan_digits_trunc [of "x # a'" t r] by (auto simp: scan_int_def split: if_splits)
qed

lemma scan_frac_app: "scan_frac s = Some (a, t) \<Longrightarrow> s = a @ t"
  by (cases s) (auto simp: scan_frac_def scan_digits_iff split: if_splits)

lemma scan_frac_trunc:
  assumes "scan_frac (a @ t @ r) = Some (a, t @ r)"
  shows "scan_frac (a @ t) = Some (a, t)"
proof (cases a)
  case Nil
  with assms show ?thesis by (cases t) (auto simp: scan_frac_def split: if_splits)
next
  case (Cons x a')
  with assms have "x = CHR ''.''" "scan_digits (a' @ t @ r) = Some (a', t @ r)"
    by (auto simp: scan_frac_def split: if_splits)
  with Cons show ?thesis by (simp add: scan_frac_def scan_digits_trunc)
qed

lemma scan_exp_app: "scan_exp s = Some (a, t) \<Longrightarrow> s = a @ t"
  by (cases s) (auto simp: scan_exp_def scan_digits_iff split: if_splits list.splits)

lemma scan_exp_trunc:
  assumes "scan_exp (a @ t @ r) = Some (a, t @ r)"
  shows "scan_exp (a @ t) = Some (a, t)"
proof (cases a)
  case Nil
  with assms show ?thesis
    by (cases t) (auto simp: scan_exp_def split: if_splits list.splits option.splits)
next
  case (Cons x a')
  with assms have x: "x = CHR ''e'' \<or> x = CHR ''E''"
    by (auto simp: scan_exp_def split: if_splits)
  show ?thesis
  proof (cases "a' \<noteq> [] \<and> (hd a' = CHR ''+'' \<or> hd a' = CHR ''-'')")
    case True
    then obtain y d where a': "a' = y # d" "y = CHR ''+'' \<or> y = CHR ''-''" by (cases a') auto
    with assms Cons x have "scan_digits (d @ t @ r) = Some (d, t @ r)"
      by (auto simp: scan_exp_def split: if_splits)
    with Cons x a' show ?thesis
      by (auto simp: scan_exp_def scan_digits_trunc)
  next
    case False
    with assms Cons x have d: "scan_digits (a' @ t @ r) = Some (a', t @ r)"
      by (cases a') (auto simp: scan_exp_def scan_digits_iff split: if_splits list.splits)
    then have "a' \<noteq> []" by (auto simp: scan_digits_iff)
    with False d Cons x show ?thesis
      by (cases a') (auto simp: scan_exp_def scan_digits_trunc [of "_ # _", simplified])
  qed
qed

lemma scan_number_trunc:
  assumes "scan_number s = Some (m, r)"
  shows "scan_number m = Some (m, [])"
proof -
  obtain sg s1 where sg: "(case s of c # r \<Rightarrow> if c = CHR ''-'' then ([c], r) else ([], s) | [] \<Rightarrow> ([], s)) = (sg, s1)"
    by fastforce
  from assms sg have "do { (i, s2) \<leftarrow> scan_int s1; (f, s3) \<leftarrow> scan_frac s2; (e, s4) \<leftarrow> scan_exp s3;
      Some (sg @ i @ f @ e, s4) } = Some (m, r)"
    by (simp add: scan_number_def)
  then obtain i s2 f s3 e where p: "scan_int s1 = Some (i, s2)" "scan_frac s2 = Some (f, s3)"
      "scan_exp s3 = Some (e, r)" "m = sg @ i @ f @ e"
    by (auto simp: bind_eq_Some_conv)
  have s3: "s3 = e @ [] @ r" using scan_exp_app [OF p(3)] by simp
  have s2: "s2 = f @ e @ r" using scan_frac_app [OF p(2)] s3 by simp
  have s1: "s1 = i @ (f @ e) @ r" using scan_int_app [OF p(1)] s2 by simp
  have "scan_int (i @ f @ e) = Some (i, f @ e)" using scan_int_trunc [of i "f @ e" r] p(1) s1 s2 by simp
  moreover have "scan_frac (f @ e) = Some (f, e)" using scan_frac_trunc [of f e r] p(2) s2 s3 by simp
  moreover have "scan_exp e = Some (e, [])" using scan_exp_trunc [of e "[]" r] p(3) s3 by simp
  moreover have "(case m of c # r \<Rightarrow> if c = CHR ''-'' then ([c], r) else ([], m) | [] \<Rightarrow> ([], m)) = (sg, i @ f @ e)"
    using sg s1 p(4) scan_int_app [OF p(1)] scan_int_not_Nil [OF p(1)]
    by (cases s; cases i) (auto split: if_splits)
  ultimately show ?thesis by (simp add: scan_number_def, simp add: p(4))
qed

lemma parse_members_SucE:
  assumes "parse_members (Suc n) acc s = Some (kvs, r)"
  obtains k v r2 r3 where "parse_value n r2 = Some (v, r3)"
    "(case skip_ws r3 of
        y # r4 \<Rightarrow> if y = CHR '','' then parse_members n (acc @ [(k, v)]) r4
                  else if y = CHR ''}'' then Some (acc @ [(k, v)], r4) else None
      | [] \<Rightarrow> None) = Some (kvs, r)"
proof -
  obtain c r0 where sk: "skip_ws s = c # r0" using assms by (cases "skip_ws s") auto
  with assms have c: "c = DQ" by (auto split: if_splits)
  with sk assms obtain k r1 where pc: "parse_chars r0 = Some (k, r1)"
    by (auto simp: bind_eq_Some_conv)
  with sk c assms obtain r2 where r2: "skip_ws r1 = CHR '':'' # r2"
    by (cases "skip_ws r1") (auto split: if_splits)
  with sk c pc assms obtain v r3 where "parse_value n r2 = Some (v, r3)"
    "(case skip_ws r3 of
        y # r4 \<Rightarrow> if y = CHR '','' then parse_members n (acc @ [(k, v)]) r4
                  else if y = CHR ''}'' then Some (acc @ [(k, v)], r4) else None
      | [] \<Rightarrow> None) = Some (kvs, r)"
    by (auto simp: bind_eq_Some_conv)
  then show ?thesis by (rule that)
qed

lemma parse_value_Suc_shape:
  assumes "parse_value (Suc n) s = Some (v, r)"
  shows "v = JObj [] \<or> (\<exists>kvs t r. v = JObj kvs \<and> parse_members n [] t = Some (kvs, r))
    \<or> v = JArr [] \<or> (\<exists>vs t r. v = JArr vs \<and> parse_elems n [] t = Some (vs, r))
    \<or> (\<exists>x. v = JStr x) \<or> (\<exists>b. v = JBool b) \<or> v = JNull
    \<or> (\<exists>m t r. v = JNum m \<and> scan_number t = Some (m, r))"
proof (cases "skip_ws s")
  case Nil
  with assms show ?thesis by simp
next
  case (Cons c t)
  with assms show ?thesis by (clarsimp split: list.splits if_splits) (auto simp: map_option_eq_Some)
qed

lemma parse_wf:
  "(\<forall>s v r. parse_value n s = Some (v, r) \<longrightarrow> wf_jval v) \<and>
   (\<forall>acc s vs r. parse_elems n acc s = Some (vs, r) \<longrightarrow> list_all wf_jval acc \<longrightarrow> list_all wf_jval vs) \<and>
   (\<forall>acc s kvs r. parse_members n acc s = Some (kvs, r) \<longrightarrow>
      list_all (\<lambda>(k, v). wf_jval v) acc \<longrightarrow> list_all (\<lambda>(k, v). wf_jval v) kvs)"
proof (induction n)
  case 0
  then show ?case by simp
next
  case (Suc n)
  have IHv: "\<And>s v r. parse_value n s = Some (v, r) \<Longrightarrow> wf_jval v"
    using Suc.IH by blast
  have IHe: "\<And>acc s vs r. parse_elems n acc s = Some (vs, r) \<Longrightarrow> list_all wf_jval acc \<Longrightarrow> list_all wf_jval vs"
    using Suc.IH by blast
  have IHm: "\<And>acc s kvs r. parse_members n acc s = Some (kvs, r) \<Longrightarrow>
      list_all (\<lambda>(k, v). wf_jval v) acc \<Longrightarrow> list_all (\<lambda>(k, v). wf_jval v) kvs"
    using Suc.IH by blast
  have v: "wf_jval v" if "parse_value (Suc n) s = Some (v, r)" for s v r
    using parse_value_Suc_shape [OF that]
    by (elim disjE exE conjE) (auto dest: scan_number_trunc IHe [of "[]"] IHm [of "[]"])
  have e: "list_all wf_jval vs" if "parse_elems (Suc n) acc s = Some (vs, r)" "list_all wf_jval acc" for acc s vs r
  proof -
    from that(1) obtain v r1 where pv: "parse_value n s = Some (v, r1)" and
      rest: "(case skip_ws r1 of
                x # r' \<Rightarrow> if x = CHR '','' then parse_elems n (acc @ [v]) r'
                          else if x = CHR '']'' then Some (acc @ [v], r') else None
              | [] \<Rightarrow> None) = Some (vs, r)"
      by (auto simp: bind_eq_Some_conv)
    have acc': "list_all wf_jval (acc @ [v])" using that(2) IHv [OF pv] by simp
    show ?thesis
      using rest acc' IHe [of "acc @ [v]"] by (auto split: list.splits if_splits)
  qed
  have m: "list_all (\<lambda>(k, v). wf_jval v) kvs"
    if "parse_members (Suc n) acc s = Some (kvs, r)" "list_all (\<lambda>(k, v). wf_jval v) acc" for acc s kvs r
  proof -
    from that(1) obtain k v r2 r3 where pv: "parse_value n r2 = Some (v, r3)" and
      rest: "(case skip_ws r3 of
                y # r4 \<Rightarrow> if y = CHR '','' then parse_members n (acc @ [(k, v)]) r4
                          else if y = CHR ''}'' then Some (acc @ [(k, v)], r4) else None
              | [] \<Rightarrow> None) = Some (kvs, r)"
      by (rule parse_members_SucE)
    have acc': "list_all (\<lambda>(k, v). wf_jval v) (acc @ [(k, v)])" using that(2) IHv [OF pv] by simp
    show ?thesis
      using rest acc' IHm [of "acc @ [(k, v)]"] by (auto split: list.splits if_splits)
  qed
  from v e m show ?case by blast
qed

theorem JSON_parse_wf: "JSON_parse s = Some v \<Longrightarrow> wf_jval v"
  using parse_wf [of "length s"] by (auto simp: JSON_parse_def bind_eq_Some_conv split: if_splits)

lemma scan_number_no_LF:
  assumes "scan_number s = Some (a, t)"
  shows "LF \<notin> set a"
proof -
  have d: "LF \<notin> set x" if "scan_digits y = Some (x, z)" for x y z
    using that by (auto simp: scan_digits_iff is_digit_def)
  obtain sg s1 where sg: "(case s of c # r \<Rightarrow> if c = CHR ''-'' then ([c], r) else ([], s) | [] \<Rightarrow> ([], s)) = (sg, s1)"
    by fastforce
  then have "LF \<notin> set sg" by (cases s) (auto split: if_splits)
  moreover from assms sg obtain i s2 f s3 e where p: "scan_int s1 = Some (i, s2)" "scan_frac s2 = Some (f, s3)"
      "scan_exp s3 = Some (e, t)" "a = sg @ i @ f @ e"
    by (auto simp: scan_number_def bind_eq_Some_conv)
  moreover have "LF \<notin> set i" using p(1) d by (cases s1) (auto simp: scan_int_def split: if_splits)
  moreover have "LF \<notin> set f" using p(2) d by (cases s2) (auto simp: scan_frac_def split: if_splits)
  moreover have "LF \<notin> set e" using p(3) d
    by (cases s3) (auto simp: scan_exp_def split: if_splits list.splits)
  ultimately show ?thesis by simp
qed

lemma hex_digit_not_LF:
  assumes "n < 16"
  shows "hex_digit n \<noteq> LF"
proof -
  have "(of_char (hex_digit n) :: nat) \<ge> 48" using assms by (simp add: hex_digit_def)
  then show ?thesis by auto
qed

lemma json_quote_no_LF: "LF \<notin> set (json_quote s)"
proof -
  have "LF \<notin> set (json_esc_char c)" for c
  proof -
    have "(of_char c :: nat) div 16 < 16" "(of_char c :: nat) mod 16 < 16"
      using nat_of_char_less_256 [of c] by (simp_all add: less_mult_imp_div_less)
    then show ?thesis
      using hex_digit_not_LF [of "of_char c div 16"] hex_digit_not_LF [of "of_char c mod 16"]
      by (auto simp: json_esc_char_def)
  qed
  then show ?thesis by (auto simp: json_quote_def)
qed

lemma json_stringify_no_LF: "wf_jval v \<Longrightarrow> LF \<notin> set (json_stringify v)"
proof (induction v)
  case (JArr vs)
  then show ?case using set_join [of "'',''" "map json_stringify vs"] by (auto simp: list_all_iff)
next
  case (JObj kvs)
  have "LF \<notin> set (member_text kv)" if "kv \<in> set kvs" for kv
    using JObj that by (cases kv) (fastforce simp: member_text_def json_quote_no_LF list_all_iff)
  then have "LF \<notin> set (join '','' (map member_text kvs))"
    using set_join [of "'',''" "map member_text kvs"] by auto
  then show ?case by (simp only: json_stringify_JObj) simp
qed (auto simp: json_quote_no_LF dest: scan_number_no_LF)

subsection \<open>The round trip as a property\<close>



end
