(* ===== verification/FileBlocks.thy ===== *)
theory FileBlocks
  imports Prelude
begin

text \<open>
  The FileBlockParser of \<open>src/src/app/page.tsx\<close>: \<open>getLanguageFromPath\<close>,
  \<open>parseFilesFromResponse\<close> and \<open>stripFileBlocks\<close>. Both parsing functions run the
  regular expression \<^verbatim>\<open>/---FILE:\s*(.+?)---\n([\s\S]*?)---END FILE---/g\<close>; the
  matcher is modelled by hand, one function per part of the pattern, each trying the
  alternatives in the order of the ECMAScript backtracking semantics: \<open>\s*\<close> greedy
  (the longest run of whitespace first, then shorter ones), \<open>.+?\<close> lazy (one
  character that is not a line terminator, then more), \<open>[\s\S]*?\<close> lazy (up to the
  first end marker). A match is the path text, the body text and the rest of the input
  after the end marker. The \<open>exec\<close> loop of the global regex is \<open>file_matches\<close>:
  it tries every position in turn and resumes after each match.
\<close>

subsection \<open>Markers\<close>

definition FILE_START :: string where "FILE_START = ''---FILE:''"
definition PATH_END :: string where "PATH_END = ''---'' @ [LF]"
definition END_MARK :: string where "END_MARK = ''---END FILE---''"

lemmas marker_defs = FILE_START_def PATH_END_def END_MARK_def

lemma marker_lengths [simp]:
  "length FILE_START = 8" "length PATH_END = 4" "length END_MARK = 14"
  by (simp_all add: marker_defs)

subsection \<open>Language of a path\<close>

text \<open>The object literal \<open>map\<close> of \<open>getLanguageFromPath\<close> (lines 100--113).\<close>

definition language_table :: "(string \<times> string) list" where
  "language_table =
     [(''ts'', ''typescript''), (''tsx'', ''tsx''), (''js'', ''javascript''), (''jsx'', ''jsx''),
      (''css'', ''css''), (''html'', ''html''), (''json'', ''json''), (''md'', ''markdown''),
      (''py'', ''python''), (''rs'', ''rust''), (''go'', ''go''), (''sql'', ''sql'')]"

text \<open>
  \<open>map[ext]\<close> on an object literal also finds the members that every object inherits
  from \<open>Object.prototype\<close>; they are functions or objects, hence truthy, and survive
  the \<open>|| "text"\<close>.
\<close>

definition object_prototype_keys :: "string list" where
  "object_prototype_keys =
     [''constructor'', ''__defineGetter__'', ''__defineSetter__'', ''hasOwnProperty'',
      ''__lookupGetter__'', ''__lookupSetter__'', ''isPrototypeOf'', ''propertyIsEnumerable'',
      ''toString'', ''valueOf'', ''__proto__'', ''toLocaleString'']"

text \<open>
  The value held in a file's \<open>language\<close> field: a string, or an inherited member of
  \<open>Object.prototype\<close> (named by its key), as \<open>getLanguageFromPath\<close> returns them;
  and, after a JSON round trip of such a member (the deep copy of the history), no value
  (\<open>undefined\<close>, the key is dropped) or an empty plain object.
\<close>

datatype lang_value = Lang string | Inherited string | Undefined | EmptyObject

definition getLanguageFromPath :: "string \<Rightarrow> lang_value" where
  "getLanguageFromPath p =
     (let ext = to_lower (last (split_on (CHR ''.'') p)) in
      case map_of language_table ext of
        Some l \<Rightarrow> Lang l
      | None \<Rightarrow> if ext \<in> set object_prototype_keys then Inherited ext else Lang ''text'')"

subsection \<open>The matcher\<close>

text \<open>\<open>([\s\S]*?)---END FILE---\<close>: the body up to the first end marker, and the rest.\<close>

fun body_end :: "string \<Rightarrow> (string \<times> string) option" where
  "body_end [] = None"
| "body_end (c # cs) =
     (if prefix END_MARK (c # cs) then Some ([], drop (length END_MARK) (c # cs))
      else map_option (\<lambda>(b, r). (c # b, r)) (body_end cs))"

text \<open>
  \<open>---\n\<close> followed by the body, tried at one position: the continuation of
  \<open>(.+?)\<close>.
\<close>

definition after_path :: "string \<Rightarrow> (string \<times> string) option" where
  "after_path xs = (if prefix PATH_END xs then body_end (drop (length PATH_END) xs) else None)"

text \<open>\<open>(.+?)---\n([\s\S]*?)---END FILE---\<close>: path, body and rest.\<close>

fun path_scan :: "string \<Rightarrow> (string \<times> string \<times> string) option" where
  "path_scan [] = None"
| "path_scan (c # cs) =
     (if is_lt c then None
      else (case after_path cs of
              Some (b, r) \<Rightarrow> Some ([c], b, r)
            | None \<Rightarrow> map_option (\<lambda>(p, b, r). (c # p, b, r)) (path_scan cs)))"

text \<open>\<open>\s*\<close> greedy in front of the rest of the pattern.\<close>

fun ws_scan :: "string \<Rightarrow> (string \<times> string \<times> string) option" where
  "ws_scan [] = path_scan []"
| "ws_scan (c # cs) =
     (if is_ws c then (case ws_scan cs of Some m \<Rightarrow> Some m | None \<Rightarrow> path_scan (c # cs))
      else path_scan (c # cs))"

text \<open>The whole pattern, anchored at the first character of the input.\<close>

definition match_at :: "string \<Rightarrow> (string \<times> string \<times> string) option" where
  "match_at xs = (if prefix FILE_START xs then ws_scan (drop (length FILE_START) xs) else None)"

subsection \<open>Shape of a match\<close>

text \<open>
  What a successful match consumed: each part of the pattern in turn. These lemmas give
  the termination of the \<open>exec\<close> loop below and the shape of every block.
\<close>

lemma body_end_Some: "body_end xs = Some (b, r) \<Longrightarrow> xs = b @ END_MARK @ r"
proof (induction xs arbitrary: b)
  case Nil
  then show ?case by simp
next
  case (Cons c cs)
  then show ?case
    by (auto simp: prefix_def split: if_splits)
qed

lemma after_path_Some: "after_path xs = Some (b, r) \<Longrightarrow> xs = PATH_END @ b @ END_MARK @ r"
  by (auto simp: after_path_def prefix_def split: if_splits dest!: body_end_Some)

lemma path_scan_Some:
  "path_scan xs = Some (p, b, r) \<Longrightarrow> xs = p @ PATH_END @ b @ END_MARK @ r \<and> p \<noteq> [] \<and> (\<forall>c \<in> set p. \<not> is_lt c)"
proof (induction xs arbitrary: p)
  case Nil
  then show ?case by simp
next
  case (Cons c cs)
  then show ?case
    by (auto split: if_splits option.splits dest!: after_path_Some)
qed

lemma ws_scan_Some:
  "ws_scan xs = Some (p, b, r) \<Longrightarrow>
     \<exists>w. xs = w @ p @ PATH_END @ b @ END_MARK @ r \<and> (\<forall>c \<in> set w. is_ws c)
       \<and> p \<noteq> [] \<and> (\<forall>c \<in> set p. \<not> is_lt c)"
proof (induction xs)
  case Nil
  then show ?case by simp
next
  case (Cons c cs)
  show ?case
  proof (cases "is_ws c \<and> ws_scan cs \<noteq> None")
    case True
    with Cons obtain w where "cs = w @ p @ PATH_END @ b @ END_MARK @ r" "\<forall>c \<in> set w. is_ws c"
      "p \<noteq> []" "\<forall>c \<in> set p. \<not> is_lt c"
      by auto
    with True show ?thesis by (intro exI [of _ "c # w"]) simp
  next
    case False
    then have "ws_scan (c # cs) = path_scan (c # cs)"
      by (auto split: option.splits)
    with Cons.prems have "path_scan (c # cs) = Some (p, b, r)"
      by simp
    from path_scan_Some [OF this] show ?thesis
      by (intro exI [of _ "[]"]) simp
  qed
qed

lemma match_at_Some:
  "match_at xs = Some (p, b, r) \<Longrightarrow>
     \<exists>w. xs = FILE_START @ w @ p @ PATH_END @ b @ END_MARK @ r \<and> (\<forall>c \<in> set w. is_ws c)
       \<and> p \<noteq> [] \<and> (\<forall>c \<in> set p. \<not> is_lt c)"
  unfolding match_at_def
  by (auto simp: prefix_def split: if_splits dest!: ws_scan_Some)

lemma match_at_shorter: "match_at xs = Some (p, b, r) \<Longrightarrow> length r < length xs"
  by (auto simp: FILE_START_def dest!: match_at_Some)

subsection \<open>The exec loop and the exported functions\<close>

text \<open>
  \<open>while ((match = regex.exec(text)) !== null)\<close> of \<open>parseFilesFromResponse\<close>
  (lines 119--129): the matches, each as its path text (group 1) and body (group 2), in
  text order. A position where the pattern fails is skipped by one character; after a
  match the search resumes at its end (\<open>lastIndex\<close>).
\<close>

function file_matches :: "string \<Rightarrow> (string \<times> string) list" where
  "file_matches [] = []"
| "file_matches (c # cs) =
     (case match_at (c # cs) of
        None \<Rightarrow> file_matches cs
      | Some (p, b, r) \<Rightarrow> (p, b) # file_matches r)"
  by pat_completeness auto
termination
  by (relation "measure length") (auto dest: match_at_shorter)

record parsed_file =
  path :: string
  content :: string
  language :: lang_value

definition parseFilesFromResponse :: "string \<Rightarrow> parsed_file list" where
  "parseFilesFromResponse text =
     map (\<lambda>(p, b). \<lparr>path = trim p, content = trim_end b, language = getLanguageFromPath (trim p)\<rparr>)
       (file_matches text)"

text \<open>
  \<open>text.replace(regex, "")\<close> of \<open>stripFileBlocks\<close> (line 167): the same pattern
  without groups, every match removed, the text between matches kept.
\<close>

function strip_matches :: "string \<Rightarrow> string" where
  "strip_matches [] = []"
| "strip_matches (c # cs) =
     (case match_at (c # cs) of
        None \<Rightarrow> c # strip_matches cs
      | Some (p, b, r) \<Rightarrow> strip_matches r)"
  by pat_completeness auto
termination
  by (relation "measure length") (auto dest: match_at_shorter)

definition stripFileBlocks :: "string \<Rightarrow> string" where
  "stripFileBlocks text = trim (strip_matches text)"

subsection \<open>The wire grammar\<close>

text \<open>
  The format the system prompt of \<open>route.ts\<close> (lines 9--13) asks the model to use:
  \<open>---FILE: path---\<close>, a newline, the content, a newline, \<open>---END FILE---\<close>. A
  response is prose and blocks in turn. A block is well formed when its path is one
  non-blank line without surrounding whitespace and its content has no trailing
  whitespace and no end marker; prose is well formed when it has no start marker.
\<close>

definition render_block :: "string \<Rightarrow> string \<Rightarrow> string" where
  "render_block p b = FILE_START @ CHR '' '' # p @ PATH_END @ b @ LF # END_MARK"

definition render_response :: "(string \<times> string \<times> string) list \<Rightarrow> string \<Rightarrow> string" where
  "render_response blocks tail = concat (map (\<lambda>(t, p, b). t @ render_block p b) blocks) @ tail"

definition wf_block :: "string \<Rightarrow> string \<Rightarrow> bool" where
  "wf_block p b \<longleftrightarrow> p \<noteq> [] \<and> (\<forall>c \<in> set p. \<not> is_lt c) \<and> \<not> is_ws (hd p) \<and> \<not> is_ws (last p)
     \<and> (b = [] \<or> \<not> is_ws (last b)) \<and> \<not> sublist END_MARK b"

definition wf_prose :: "string \<Rightarrow> bool" where
  "wf_prose t \<longleftrightarrow> \<not> sublist FILE_START t"

subsection \<open>Re-parsing a longer buffer\<close>

text \<open>
  The parser is re-run on the whole accumulated text after every streamed fragment. The
  lemmas below show that a match found in a text is found again, unchanged, when the text
  grows (\<open>*_extend\<close>), and that a position that fails in a text fails in every
  extension of it once a complete block follows it (\<open>*_None_extend\<close>): a failure
  can only be undone by text that arrives later when nothing after it has matched yet.
\<close>

lemma prefix_LF_free:
  "LF \<notin> set X \<Longrightarrow> prefix X (u @ LF # v) \<Longrightarrow> prefix X u"
proof (induction X arbitrary: u)
  case Nil
  then show ?case by simp
next
  case (Cons x X)
  show ?case
  proof (cases u)
    case Nil
    with Cons.prems show ?thesis by auto
  next
    case (Cons a u')
    with Cons.prems Cons.IH [of u'] show ?thesis by simp
  qed
qed

lemma body_end_extend: "body_end xs = Some (b, r) \<Longrightarrow> body_end (xs @ ys) = Some (b, r @ ys)"
proof (induction xs arbitrary: b)
  case Nil
  then show ?case by simp
next
  case (Cons c cs)
  show ?case
  proof (cases "prefix END_MARK (c # cs)")
    case True
    then have len: "length END_MARK \<le> length (c # cs)" by (rule prefix_length_le)
    from prefix_prefix [OF True, of ys] have pre: "prefix END_MARK (c # cs @ ys)" by simp
    have dr: "drop (length END_MARK) (c # cs @ ys) = drop (length END_MARK) (c # cs) @ ys"
      using drop_append [of _ "c # cs" ys] len by simp
    from True Cons.prems pre dr show ?thesis by simp
  next
    case False
    with Cons.prems obtain b' where b': "body_end cs = Some (b', r)" "b = c # b'" by auto
    then have "length END_MARK \<le> length (c # cs)" by (auto dest!: body_end_Some)
    then have "prefix END_MARK ((c # cs) @ ys) = prefix END_MARK (c # cs)"
      by (rule prefix_append_right_len)
    with False have "\<not> prefix END_MARK (c # cs @ ys)" by simp
    with b' Cons.IH show ?thesis by simp
  qed
qed

lemma body_end_exists: "sublist END_MARK z \<Longrightarrow> body_end z \<noteq> None"
proof (induction z)
  case Nil
  then show ?case by (simp add: END_MARK_def)
next
  case (Cons c cs)
  show ?case
  proof (cases "prefix END_MARK (c # cs)")
    case True
    then show ?thesis by simp
  next
    case False
    with Cons.prems have "sublist END_MARK cs" by (simp add: sublist_Cons_right)
    with Cons.IH False show ?thesis by simp
  qed
qed

lemma PATH_END_nth_lt3: "i < 3 \<Longrightarrow> PATH_END ! i \<noteq> LF"
proof -
  assume "i < 3"
  then have "i = 0 \<or> i = 1 \<or> i = 2" by arith
  then show ?thesis by (auto simp: PATH_END_def)
qed

lemma no_PATH_END_before:
  assumes "u \<noteq> []" "\<forall>c \<in> set u. \<not> is_lt c"
  shows "\<not> prefix PATH_END (u @ PATH_END @ z)"
proof
  assume "prefix PATH_END (u @ PATH_END @ z)"
  then obtain zs where eq: "u @ PATH_END @ z = PATH_END @ zs" by (auto simp: prefix_def)
  have "(u @ PATH_END @ z) ! 3 = LF" unfolding eq by (simp add: PATH_END_def)
  moreover have "(u @ PATH_END @ z) ! 3 \<noteq> LF"
  proof (cases "3 < length u")
    case True
    then have "u ! 3 \<in> set u" by (rule nth_mem)
    with assms(2) have "\<not> is_lt (u ! 3)" by blast
    with True show ?thesis by (auto simp: nth_append)
  next
    case False
    with assms(1) have lt: "3 - length u < 3" by (cases u) auto
    have "(u @ PATH_END @ z) ! 3 = (PATH_END @ z) ! (3 - length u)"
      using False by (simp add: nth_append)
    also have "\<dots> = PATH_END ! (3 - length u)"
      using lt by (simp add: nth_append)
    finally show ?thesis using lt by (simp add: PATH_END_nth_lt3)
  qed
  ultimately show False by simp
qed

lemma after_path_extend:
  "after_path xs = Some (b, r) \<Longrightarrow> after_path (xs @ ys) = Some (b, r @ ys)"
proof -
  assume a: "after_path xs = Some (b, r)"
  then have pre: "prefix PATH_END xs" and be: "body_end (drop 4 xs) = Some (b, r)"
    by (auto simp: after_path_def split: if_splits)
  from pre have "length PATH_END \<le> length xs" by (rule prefix_length_le)
  then have "drop 4 (xs @ ys) = drop 4 xs @ ys" by simp
  with pre be show ?thesis by (simp add: after_path_def body_end_extend)
qed

lemma after_path_None_extend:
  "after_path xs = None \<Longrightarrow> \<not> prefix PATH_END xs \<Longrightarrow> 4 \<le> length xs \<Longrightarrow> after_path (xs @ ys) = None"
  by (simp add: after_path_def prefix_append_right_len)

lemma path_scan_extend:
  "path_scan xs = Some (p, b, r) \<Longrightarrow> path_scan (xs @ ys) = Some (p, b, r @ ys)"
proof (induction xs arbitrary: p)
  case Nil
  then show ?case by simp
next
  case (Cons c cs)
  from Cons.prems have c: "\<not> is_lt c" by (auto split: if_splits)
  show ?case
  proof (cases "after_path cs")
    case (Some m)
    with Cons.prems c show ?thesis by (cases m) (auto simp: after_path_extend)
  next
    case None
    with Cons.prems c obtain p' where p': "path_scan cs = Some (p', b, r)" "p = c # p'"
      by auto
    from path_scan_Some [OF p'(1)] have "\<not> prefix PATH_END cs" "4 \<le> length cs"
      by (auto simp: no_PATH_END_before)
    with None have "after_path (cs @ ys) = None" by (rule after_path_None_extend)
    with p' c Cons.IH show ?thesis by simp
  qed
qed

lemma path_scan_complete:
  "p \<noteq> [] \<Longrightarrow> \<forall>c \<in> set p. \<not> is_lt c \<Longrightarrow> sublist END_MARK z \<Longrightarrow> path_scan (p @ PATH_END @ z) \<noteq> None"
proof (induction p)
  case Nil
  then show ?case by simp
next
  case (Cons c p)
  show ?case
  proof (cases p)
    case Nil
    with Cons.prems body_end_exists [of z] show ?thesis
      by (auto simp: after_path_def split: option.splits)
  next
    case (Cons c' p')
    with Cons.prems Cons.IH show ?thesis by (auto split: option.splits)
  qed
qed

lemma sublist_drop_PATH_END:
  "sublist END_MARK z \<Longrightarrow> u \<noteq> [] \<Longrightarrow> sublist END_MARK (drop 4 (u @ PATH_END @ z))"
proof -
  assume s: "sublist END_MARK z" and u: "u \<noteq> []"
  have "drop 4 (u @ PATH_END @ z) = drop 4 (u @ PATH_END) @ z"
    using u by (simp add: drop_append)
  with s show ?thesis by (metis sublist_append_leftI sublist_order.order_trans)
qed

lemma path_scan_None_extend:
  assumes "p \<noteq> []" "\<forall>c \<in> set p. \<not> is_lt c" "sublist END_MARK z"
  shows "path_scan (u @ p @ PATH_END @ z) = None \<Longrightarrow> path_scan (u @ p @ PATH_END @ z @ ys) = None"
proof (induction u)
  case Nil
  with path_scan_complete [OF assms] show ?case by simp
next
  case (Cons c u)
  show ?case
  proof (cases "is_lt c")
    case True
    then show ?thesis by simp
  next
    case False
    let ?rest = "u @ p @ PATH_END @ z"
    from Cons.prems False have none: "after_path ?rest = None" "path_scan ?rest = None"
      by (auto split: option.splits)
    have "\<not> prefix PATH_END ?rest"
    proof
      assume "prefix PATH_END ?rest"
      moreover have "sublist END_MARK (drop 4 ((u @ p) @ PATH_END @ z))"
        using assms(1,3) by (intro sublist_drop_PATH_END) auto
      ultimately have "after_path ?rest \<noteq> None"
        using body_end_exists by (simp add: after_path_def)
      with none show False by simp
    qed
    moreover have "4 \<le> length ?rest" by simp
    ultimately have "after_path (?rest @ ys) = None"
      using none(1) by (metis after_path_None_extend)
    with none Cons.IH False show ?thesis by simp
  qed
qed

lemma ws_scan_None_path_scan: "ws_scan zs = None \<Longrightarrow> path_scan zs = None"
  by (cases zs) (auto split: if_splits option.splits)

lemma ws_scan_None_extend:
  assumes "p \<noteq> []" "\<forall>c \<in> set p. \<not> is_lt c" "sublist END_MARK z"
  shows "ws_scan (u @ p @ PATH_END @ z) = None \<Longrightarrow> ws_scan (u @ p @ PATH_END @ z @ ys) = None"
proof (induction u)
  case Nil
  with path_scan_complete [OF assms] show ?case by (auto dest: ws_scan_None_path_scan)
next
  case (Cons c u)
  from Cons.prems have ps: "path_scan ((c # u) @ p @ PATH_END @ z) = None"
    by (rule ws_scan_None_path_scan)
  then have ps': "path_scan ((c # u) @ p @ PATH_END @ z @ ys) = None"
    by (rule path_scan_None_extend [OF assms])
  show ?case
  proof (cases "is_ws c")
    case True
    with Cons.prems have "ws_scan (u @ p @ PATH_END @ z) = None"
      by (auto split: option.splits)
    with Cons.IH ps' True show ?thesis by simp
  next
    case False
    with ps' show ?thesis by simp
  qed
qed

lemma path_scan_PATH_END: "path_scan (PATH_END @ z) = None"
  by (simp add: PATH_END_def after_path_def)

lemma ws_scan_PATH_END: "ws_scan (PATH_END @ z) = None"
  by (simp add: PATH_END_def after_path_def is_ws_def ws_chars_def)

lemma ws_scan_extend:
  "ws_scan xs = Some (p, b, r) \<Longrightarrow> ws_scan (xs @ ys) = Some (p, b, r @ ys)"
proof (induction xs)
  case Nil
  then show ?case by simp
next
  case (Cons c cs)
  show ?case
  proof (cases "is_ws c \<and> ws_scan cs \<noteq> None")
    case True
    with Cons show ?thesis by auto
  next
    case False
    then have eq: "ws_scan (c # cs) = path_scan (c # cs)"
      by (auto split: option.splits)
    with Cons.prems have ps: "path_scan (c # cs) = Some (p, b, r)" by simp
    then have ps': "path_scan ((c # cs) @ ys) = Some (p, b, r @ ys)"
      by (rule path_scan_extend)
    show ?thesis
    proof (cases "is_ws c")
      case False
      with ps' show ?thesis by simp
    next
      case True
      with \<open>\<not> (is_ws c \<and> ws_scan cs \<noteq> None)\<close> have none: "ws_scan cs = None"
        by (cases "ws_scan cs") auto
      from path_scan_Some [OF ps] obtain p' where
        p': "p = c # p'" "cs = p' @ PATH_END @ b @ END_MARK @ r" "\<forall>c \<in> set p'. \<not> is_lt c"
        by (cases p) auto
      have "ws_scan (cs @ ys) = None"
      proof (cases "p' = []")
        case True
        with p' show ?thesis by (simp add: ws_scan_PATH_END)
      next
        case False
        have "ws_scan ([] @ p' @ PATH_END @ (b @ END_MARK @ r) @ ys) = None"
          by (rule ws_scan_None_extend) (use False p' none in auto)
        with p' show ?thesis by simp
      qed
      with True ps' show ?thesis by simp
    qed
  qed
qed

lemma match_at_extend:
  "match_at xs = Some (p, b, r) \<Longrightarrow> match_at (xs @ ys) = Some (p, b, r @ ys)"
proof -
  assume m: "match_at xs = Some (p, b, r)"
  then have pre: "prefix FILE_START xs" and ws: "ws_scan (drop 8 xs) = Some (p, b, r)"
    by (auto simp: match_at_def split: if_splits)
  from pre have "length FILE_START \<le> length xs" by (rule prefix_length_le)
  then have "drop 8 (xs @ ys) = drop 8 xs @ ys" by simp
  with pre ws show ?thesis by (simp add: match_at_def ws_scan_extend)
qed

lemma FILE_START_no_border:
  assumes "prefix FILE_START xs" "0 < j" "j < 8"
  shows "\<not> prefix FILE_START (drop j xs)"
proof
  assume later: "prefix FILE_START (drop j xs)"
  from assms(1) obtain t where xs: "xs = FILE_START @ t" by (auto simp: prefix_def)
  from later xs assms(3) have "prefix FILE_START (drop j FILE_START @ t)" by simp
  then have "take (8 - j) FILE_START = drop j FILE_START"
    using assms(3) by (auto simp: prefix_def append_eq_append_conv2 append_eq_conv_conj)
  moreover from assms(2,3) have "j = 1 \<or> j = 2 \<or> j = 3 \<or> j = 4 \<or> j = 5 \<or> j = 6 \<or> j = 7"
    by arith
  ultimately show False by (auto simp: FILE_START_def)
qed

lemma file_matches_found:
  "file_matches zs \<noteq> [] \<Longrightarrow> \<exists>u v p b r. zs = u @ v \<and> match_at v = Some (p, b, r)"
proof (induction zs rule: file_matches.induct)
  case 1
  then show ?case by simp
next
  case (2 c cs)
  show ?case
  proof (cases "match_at (c # cs)")
    case None
    with "2.prems" "2.IH"(1) obtain u v p b r where "cs = u @ v" "match_at v = Some (p, b, r)"
      by auto
    then have "c # cs = (c # u) @ v \<and> match_at v = Some (p, b, r)" by simp
    then show ?thesis by blast
  next
    case (Some m)
    then have "c # cs = [] @ (c # cs) \<and> match_at (c # cs) = Some (fst m, fst (snd m), snd (snd m))"
      by simp
    then show ?thesis by blast
  qed
qed

lemma match_at_None_extend:
  assumes none: "match_at (c # cs) = None" and later: "file_matches cs \<noteq> []"
  shows "match_at ((c # cs) @ ys) = None"
proof (cases "prefix FILE_START (c # cs)")
  case False
  from later obtain u v p b r where cs: "cs = u @ v" and m: "match_at v = Some (p, b, r)"
    by (auto dest: file_matches_found)
  from m have "8 \<le> length v" by (auto dest!: match_at_Some)
  with cs have "prefix FILE_START ((c # cs) @ ys) = prefix FILE_START (c # cs)"
    by (intro prefix_append_right_len) simp
  with False show ?thesis by (simp add: match_at_def)
next
  case True
  from later obtain u v p b r where cs: "cs = u @ v" and m: "match_at v = Some (p, b, r)"
    by (auto dest: file_matches_found)
  from m obtain w where v: "v = FILE_START @ w @ p @ PATH_END @ b @ END_MARK @ r"
    and p: "p \<noteq> []" "\<forall>c \<in> set p. \<not> is_lt c"
    by (auto dest!: match_at_Some)
  have u7: "7 \<le> length u"
  proof (rule ccontr)
    assume "\<not> 7 \<le> length u"
    then have "0 < Suc (length u)" "Suc (length u) < 8" by simp_all
    with True have "\<not> prefix FILE_START (drop (Suc (length u)) (c # cs))"
      by (rule FILE_START_no_border)
    with cs v show False by simp
  qed
  let ?pre = "drop 7 u @ FILE_START @ w"
  have d8: "drop 8 (c # cs) = ?pre @ p @ PATH_END @ (b @ END_MARK @ r)"
    using u7 cs v by simp
  have sub: "sublist END_MARK (b @ END_MARK @ r)" by simp
  from True none have "ws_scan (drop 8 (c # cs)) = None" by (simp add: match_at_def)
  then have "ws_scan (?pre @ p @ PATH_END @ (b @ END_MARK @ r)) = None" by (simp only: d8)
  from ws_scan_None_extend [OF p sub this]
  have "ws_scan (?pre @ p @ PATH_END @ (b @ END_MARK @ r) @ ys) = None" .
  moreover have "drop 8 ((c # cs) @ ys) = ?pre @ p @ PATH_END @ (b @ END_MARK @ r) @ ys"
    using u7 cs v by simp
  moreover from True have "prefix FILE_START ((c # cs) @ ys)" by (rule prefix_prefix)
  ultimately show ?thesis by (simp add: match_at_def)
qed

lemma file_matches_prefix_mono: "prefix (file_matches xs) (file_matches (xs @ ys))"
proof (induction xs rule: file_matches.induct)
  case 1
  then show ?case by simp
next
  case (2 c cs)
  show ?case
  proof (cases "match_at (c # cs)")
    case None
    show ?thesis
    proof (cases "file_matches cs = []")
      case True
      with None show ?thesis by simp
    next
      case False
      with None have "match_at ((c # cs) @ ys) = None" by (rule match_at_None_extend)
      with None "2.IH"(1) show ?thesis by simp
    qed
  next
    case (Some m)
    obtain p b r where m: "m = (p, b, r)" by (cases m)
    with Some have "match_at ((c # cs) @ ys) = Some (p, b, r @ ys)"
      by (intro match_at_extend) simp
    with Some m "2.IH"(2) [OF Some m [symmetric]] show ?thesis by simp
  qed
qed


text \<open>
  C1. Re-parsing is monotone: the files \<open>parseFilesFromResponse\<close> returns for a text
  are a prefix of the files it returns for any extension of that text, so a block that was
  complete once is never lost, reordered or changed by more streamed text.
\<close>

theorem parseFilesFromResponse_prefix:
  "prefix (parseFilesFromResponse text) (parseFilesFromResponse (text @ later))"
  unfolding parseFilesFromResponse_def
  by (rule map_mono_prefix) (rule file_matches_prefix_mono)

subsection \<open>Round trips with the wire grammar\<close>

lemma body_end_render:
  "\<not> sublist END_MARK b \<Longrightarrow> body_end (b @ LF # END_MARK @ r) = Some (b @ [LF], r)"
proof (induction b)
  case Nil
  have "\<not> prefix END_MARK (LF # END_MARK @ r)" by (simp add: END_MARK_def)
  then show ?case by (simp add: END_MARK_def)
next
  case (Cons c b)
  have "\<not> prefix END_MARK ((c # b) @ LF # END_MARK @ r)"
  proof
    assume pre: "prefix END_MARK ((c # b) @ LF # END_MARK @ r)"
    have "LF \<notin> set END_MARK" by (simp add: END_MARK_def)
    from prefix_LF_free [OF this pre] have "prefix END_MARK (c # b)" .
    with Cons.prems show False by (auto simp: sublist_Cons_right)
  qed
  moreover from Cons.prems have "\<not> sublist END_MARK b" by (auto simp: sublist_Cons_right)
  ultimately show ?case using Cons.IH by simp
qed

lemma path_scan_render:
  "p \<noteq> [] \<Longrightarrow> \<forall>c \<in> set p. \<not> is_lt c \<Longrightarrow> \<not> sublist END_MARK b \<Longrightarrow>
     path_scan (p @ PATH_END @ b @ LF # END_MARK @ r) = Some (p, b @ [LF], r)"
proof (induction p)
  case Nil
  then show ?case by simp
next
  case (Cons c p)
  show ?case
  proof (cases p)
    case Nil
    with Cons.prems show ?thesis by (simp add: after_path_def body_end_render)
  next
    case (Cons c' p')
    from Cons Cons.prems have "\<not> prefix PATH_END (p @ PATH_END @ b @ LF # END_MARK @ r)"
      by (intro no_PATH_END_before) auto
    then have "after_path (p @ PATH_END @ b @ LF # END_MARK @ r) = None"
      by (simp add: after_path_def)
    with Cons.prems Cons.IH Cons show ?thesis by auto
  qed
qed

lemma match_at_render:
  "wf_block p b \<Longrightarrow> match_at (render_block p b @ r) = Some (p, b @ [LF], r)"
proof -
  assume wf: "wf_block p b"
  then obtain c p' where p: "p = c # p'" "\<not> is_ws c" by (cases p) (auto simp: wf_block_def)
  from wf have ps: "path_scan (p @ PATH_END @ b @ LF # END_MARK @ r) = Some (p, b @ [LF], r)"
    by (intro path_scan_render) (auto simp: wf_block_def)
  have "ws_scan (p @ PATH_END @ b @ LF # END_MARK @ r) = Some (p, b @ [LF], r)"
    using ps p by simp
  then have "ws_scan (CHR '' '' # p @ PATH_END @ b @ LF # END_MARK @ r) = Some (p, b @ [LF], r)"
    by (simp add: is_ws_def ws_chars_def)
  then show ?thesis by (simp add: match_at_def render_block_def)
qed

lemma no_FILE_START_at:
  "\<not> sublist FILE_START t \<Longrightarrow> t \<noteq> [] \<Longrightarrow> \<not> prefix FILE_START (t @ FILE_START @ z)"
proof
  assume t: "\<not> sublist FILE_START t" "t \<noteq> []" and pre: "prefix FILE_START (t @ FILE_START @ z)"
  show False
  proof (cases "8 \<le> length t")
    case True
    with pre have "prefix FILE_START t" by (simp add: prefix_append_right_len)
    with t show False by (auto dest: prefix_imp_sublist)
  next
    case False
    with t(2) have "0 < length t" "length t < 8" by auto
    with pre have "\<not> prefix FILE_START (drop (length t) (t @ FILE_START @ z))"
      by (rule FILE_START_no_border)
    then show False by simp
  qed
qed

lemma file_matches_prose:
  "\<not> sublist FILE_START t \<Longrightarrow> file_matches (t @ FILE_START @ z) = file_matches (FILE_START @ z)"
proof (induction t)
  case Nil
  then show ?case by simp
next
  case (Cons c t)
  from Cons.prems have "\<not> prefix FILE_START ((c # t) @ FILE_START @ z)"
    by (intro no_FILE_START_at) auto
  then have "match_at (c # t @ FILE_START @ z) = None" by (simp add: match_at_def)
  moreover from Cons.prems have "\<not> sublist FILE_START t" by (auto simp: sublist_Cons_right)
  ultimately show ?case using Cons.IH by simp
qed

lemma file_matches_no_start: "\<not> sublist FILE_START t \<Longrightarrow> file_matches t = []"
proof (induction t)
  case Nil
  then show ?case by simp
next
  case (Cons c t)
  then have "match_at (c # t) = None"
    by (auto simp: match_at_def sublist_Cons_right)
  with Cons show ?case by (simp add: sublist_Cons_right)
qed

lemma strip_matches_prose:
  "\<not> sublist FILE_START t \<Longrightarrow> strip_matches (t @ FILE_START @ z) = t @ strip_matches (FILE_START @ z)"
proof (induction t)
  case Nil
  then show ?case by simp
next
  case (Cons c t)
  from Cons.prems have "\<not> prefix FILE_START ((c # t) @ FILE_START @ z)"
    by (intro no_FILE_START_at) auto
  then have "match_at (c # t @ FILE_START @ z) = None" by (simp add: match_at_def)
  moreover from Cons.prems have "\<not> sublist FILE_START t" by (auto simp: sublist_Cons_right)
  ultimately show ?case using Cons.IH by simp
qed

lemma strip_matches_no_start: "\<not> sublist FILE_START t \<Longrightarrow> strip_matches t = t"
proof (induction t)
  case Nil
  then show ?case by simp
next
  case (Cons c t)
  then have "match_at (c # t) = None"
    by (auto simp: match_at_def sublist_Cons_right)
  with Cons show ?case by (simp add: sublist_Cons_right)
qed

lemma file_matches_Some:
  "match_at xs = Some (p, b, r) \<Longrightarrow> file_matches xs = (p, b) # file_matches r"
  by (cases xs) (auto simp: match_at_def FILE_START_def)

lemma render_block_start: "render_block p b @ r = FILE_START @ drop 8 (render_block p b) @ r"
  by (simp add: render_block_def)

lemma file_matches_render:
  "\<forall>(t, p, b) \<in> set blocks. wf_prose t \<and> wf_block p b \<Longrightarrow> wf_prose tail \<Longrightarrow>
     file_matches (render_response blocks tail) = map (\<lambda>(t, p, b). (p, b @ [LF])) blocks"
proof (induction blocks)
  case Nil
  then show ?case by (simp add: render_response_def wf_prose_def file_matches_no_start)
next
  case (Cons x blocks)
  obtain t p b where x: "x = (t, p, b)" by (cases x)
  with Cons.prems have wf: "wf_prose t" "wf_block p b" by auto
  let ?r = "render_response blocks tail"
  have "render_response (x # blocks) tail = t @ FILE_START @ (drop 8 (render_block p b) @ ?r)"
    by (simp add: render_response_def x render_block_def)
  then have "file_matches (render_response (x # blocks) tail) = file_matches (render_block p b @ ?r)"
    using wf(1) by (simp add: wf_prose_def file_matches_prose render_block_def)
  also have "\<dots> = (p, b @ [LF]) # file_matches ?r"
    using match_at_render [OF wf(2)] by (rule file_matches_Some)
  finally show ?case using Cons x by simp
qed

lemma strip_matches_Some:
  "match_at xs = Some (p, b, r) \<Longrightarrow> strip_matches xs = strip_matches r"
  by (cases xs) (auto simp: match_at_def FILE_START_def)

lemma strip_matches_render:
  "\<forall>(t, p, b) \<in> set blocks. wf_prose t \<and> wf_block p b \<Longrightarrow> wf_prose tail \<Longrightarrow>
     strip_matches (render_response blocks tail) = concat (map fst blocks) @ tail"
proof (induction blocks)
  case Nil
  then show ?case by (simp add: render_response_def wf_prose_def strip_matches_no_start)
next
  case (Cons x blocks)
  obtain t p b where x: "x = (t, p, b)" by (cases x)
  with Cons.prems have wf: "wf_prose t" "wf_block p b" by auto
  let ?r = "render_response blocks tail"
  have "render_response (x # blocks) tail = t @ FILE_START @ (drop 8 (render_block p b) @ ?r)"
    by (simp add: render_response_def x render_block_def)
  then have "strip_matches (render_response (x # blocks) tail) = t @ strip_matches (render_block p b @ ?r)"
    using wf(1) by (simp add: wf_prose_def strip_matches_prose render_block_def)
  also have "strip_matches (render_block p b @ ?r) = strip_matches ?r"
    using match_at_render [OF wf(2)] by (rule strip_matches_Some)
  finally show ?case using Cons x by simp
qed

lemma wf_block_trim:
  "wf_block p b \<Longrightarrow> trim p = p \<and> trim_end (b @ [LF]) = b"
  by (auto simp: wf_block_def trim_def trim_end_append_ws trim_end_no_ws_last trim_start_no_ws_hd)

lemma file_matches_no_end: "\<not> sublist END_MARK xs \<Longrightarrow> file_matches xs = []"
proof (induction xs rule: file_matches.induct)
  case 1
  then show ?case by simp
next
  case (2 c cs)
  have "match_at (c # cs) = None"
  proof (rule ccontr)
    assume "match_at (c # cs) \<noteq> None"
    then obtain p b r where "match_at (c # cs) = Some (p, b, r)" by auto
    from match_at_Some [OF this] have "sublist END_MARK (c # cs)"
      by (auto intro: sublist_appendI [of END_MARK "FILE_START @ _ @ p @ PATH_END @ b" r, simplified])
    with "2.prems" show False by simp
  qed
  moreover from "2.prems" have "\<not> sublist END_MARK cs" by (auto simp: sublist_Cons_right)
  ultimately show ?case using "2.IH"(1) by simp
qed

text \<open>
  C2. Parsing inverts the wire grammar: a response made of well-formed prose and blocks
  parses to exactly its blocks, in order, each with its path, its content and the language
  of its path.
\<close>

theorem parseFilesFromResponse_render:
  assumes "\<forall>(t, p, b) \<in> set blocks. wf_prose t \<and> wf_block p b" and "wf_prose tail"
  shows "map (\<lambda>f. (path f, content f, language f)) (parseFilesFromResponse (render_response blocks tail)) =
         map (\<lambda>(t, p, b). (p, b, getLanguageFromPath p)) blocks"
proof -
  have "file_matches (render_response blocks tail) = map (\<lambda>(t, p, b). (p, b @ [LF])) blocks"
    using assms by (rule file_matches_render)
  moreover have "\<forall>(t, p, b) \<in> set blocks. trim p = p \<and> trim_end (b @ [LF]) = b"
    using assms(1) wf_block_trim by fast
  ultimately show ?thesis
    by (simp add: parseFilesFromResponse_def case_prod_beta)
qed

text \<open>
  C3. \<open>stripFileBlocks\<close> removes exactly the blocks: on a response made of well-formed
  prose and blocks it returns the prose, concatenated and trimmed.
\<close>

theorem stripFileBlocks_render:
  assumes "\<forall>(t, p, b) \<in> set blocks. wf_prose t \<and> wf_block p b" and "wf_prose tail"
  shows "stripFileBlocks (render_response blocks tail) = trim (concat (map fst blocks) @ tail)"
  using strip_matches_render [OF assms] by (simp add: stripFileBlocks_def)

text \<open>
  C4. An unterminated block is ignored: a text without an end marker yields no file.
\<close>

theorem parseFilesFromResponse_no_end:
  "\<not> sublist END_MARK text \<Longrightarrow> parseFilesFromResponse text = []"
  by (simp add: parseFilesFromResponse_def file_matches_no_end)

subsection \<open>Witnesses: the scenario of an unterminated, then terminated block\<close>

theorem parseFilesFromResponse_render_witness:
  "wf_prose ''Here: '' \<and> wf_block ''Foo.tsx'' ''<div/>'' \<and> wf_prose ''Done.'' \<and>
   map (\<lambda>f. (path f, content f, language f))
     (parseFilesFromResponse (render_response [(''Here: '', ''Foo.tsx'', ''<div/>'')] ''Done.'')) =
   [(''Foo.tsx'', ''<div/>'', Lang ''tsx'')]"
proof -
  have h: "wf_prose ''Here: ''" "wf_block ''Foo.tsx'' ''<div/>''" "wf_prose ''Done.''"
    by (simp_all add: wf_prose_def wf_block_def marker_defs sublist_code js_simps)
  have "\<forall>(t, p, b) \<in> set [(''Here: '', ''Foo.tsx'', ''<div/>'')]. wf_prose t \<and> wf_block p b"
    using h by simp
  from parseFilesFromResponse_render [OF this h(3)] h show ?thesis
    by (simp add: getLanguageFromPath_def language_table_def js_simps)
qed

theorem stripFileBlocks_render_witness:
  "wf_prose ''Here: '' \<and> wf_block ''Foo.tsx'' ''<div/>'' \<and> wf_prose '' Done.'' \<and>
   stripFileBlocks (render_response [(''Here: '', ''Foo.tsx'', ''<div/>'')] '' Done.'') = ''Here:  Done.''"
proof -
  have h: "wf_prose ''Here: ''" "wf_block ''Foo.tsx'' ''<div/>''" "wf_prose '' Done.''"
    by (simp_all add: wf_prose_def wf_block_def marker_defs sublist_code js_simps)
  have "\<forall>(t, p, b) \<in> set [(''Here: '', ''Foo.tsx'', ''<div/>'')]. wf_prose t \<and> wf_block p b"
    using h by simp
  from stripFileBlocks_render [OF this h(3)] h show ?thesis
    by (simp add: js_simps)
qed

theorem parseFilesFromResponse_no_end_witness:
  "\<not> sublist END_MARK (FILE_START @ '' Foo.tsx'' @ PATH_END @ ''<div/>'') \<and>
   parseFilesFromResponse (FILE_START @ '' Foo.tsx'' @ PATH_END @ ''<div/>'') = []"
proof -
  have h: "\<not> sublist END_MARK (FILE_START @ '' Foo.tsx'' @ PATH_END @ ''<div/>'')"
    by (simp add: marker_defs sublist_code)
  from parseFilesFromResponse_no_end [OF h] h show ?thesis by simp
qed

subsection \<open>The range of getLanguageFromPath\<close>

definition no_upper :: "string \<Rightarrow> bool" where
  "no_upper s \<longleftrightarrow> (\<forall>c \<in> set s. \<not> (65 \<le> (of_char c :: nat) \<and> (of_char c :: nat) \<le> 90))"

lemma no_upper_to_lower: "no_upper (to_lower s)"
proof -
  have "\<not> (65 \<le> (of_char (lower_char c) :: nat) \<and> (of_char (lower_char c) :: nat) \<le> 90)" for c
  proof (cases "65 \<le> (of_char c :: nat) \<and> (of_char c :: nat) \<le> 90")
    case True
    then have "(of_char c :: nat) + 32 < 256" by simp
    with True show ?thesis by (simp add: lower_char_def Let_def)
  next
    case False
    then show ?thesis by (simp add: lower_char_def Let_def)
  qed
  then show ?thesis by (simp add: no_upper_def to_lower_def)
qed

lemma lower_prototype_keys: "filter no_upper object_prototype_keys = [''constructor'', ''__proto__'']"
  by (simp add: object_prototype_keys_def no_upper_def)

lemma prototype_key_no_upper:
  "e \<in> set object_prototype_keys \<Longrightarrow> no_upper e \<Longrightarrow> e = ''constructor'' \<or> e = ''__proto__''"
proof -
  assume "e \<in> set object_prototype_keys" "no_upper e"
  then have "e \<in> set (filter no_upper object_prototype_keys)" by simp
  then show ?thesis by (simp only: lower_prototype_keys) simp
qed

text \<open>
  C5. The language of a path is one of the table's languages or \<open>"text"\<close>, except for
  the two members of \<open>Object.prototype\<close> whose names are lower case: an extension
  \<open>constructor\<close> or \<open>__proto__\<close> makes \<open>getLanguageFromPath\<close> return the inherited
  member, not a string. Every other inherited member has an upper-case letter, which the
  \<open>toLowerCase\<close> of the extension never produces.
\<close>

theorem getLanguageFromPath_range:
  "getLanguageFromPath p \<in>
     Lang ` insert ''text'' (snd ` set language_table) \<union> {Inherited ''constructor'', Inherited ''__proto__''}"
proof -
  define e where "e = to_lower (last (split_on (CHR ''.'') p))"
  have nu: "no_upper e" by (simp add: e_def no_upper_to_lower)
  show ?thesis
  proof (cases "map_of language_table e")
    case (Some l)
    then have "(e, l) \<in> set language_table" by (rule map_of_SomeD)
    then have "l \<in> snd ` set language_table" by (rule image_eqI [rotated]) simp
    with Some show ?thesis by (simp add: getLanguageFromPath_def e_def [symmetric] Let_def)
  next
    case None
    with nu prototype_key_no_upper show ?thesis
      by (auto simp: getLanguageFromPath_def e_def [symmetric] Let_def)
  qed
qed

lemma getLanguageFromPath_constructor:
  "getLanguageFromPath ''lib/x.constructor'' = Inherited ''constructor''"
  by (simp add: getLanguageFromPath_def language_table_def object_prototype_keys_def js_simps)

lemma getLanguageFromPath_no_dot:
  "getLanguageFromPath ''go'' = Lang ''go''"
  by (simp add: getLanguageFromPath_def language_table_def js_simps)

end
