(* ===== verification/Store.thy ===== *)
theory Store
  imports FileBlocks
begin

text \<open>
  The ArtifactStore and the HistoryManager of \<open>src/src/app/page.tsx\<close>. The store is
  the state \<open>allFiles\<close>, a list of files; the history is \<open>fileHistory\<close>, a list of
  snapshots. This theory holds the final merge of \<open>sendMessage\<close> (lines 931--936),
  which builds a JavaScript \<open>Map\<close> from the files and the parsed blocks, the live
  \<open>ArtifactInfo\<close> list of the streaming loop (lines 901--910), \<open>saveToHistory\<close>,
  \<open>undoChanges\<close>, \<open>deleteFile\<close> and \<open>renameFile\<close> (lines 776--809). A
  \<open>Map\<close> keeps its keys in the order of their first insertion and \<open>set\<close> on a
  present key replaces the value in place; it is an association list here.
\<close>

subsection \<open>A JavaScript Map\<close>

fun map_set :: "'k \<Rightarrow> 'v \<Rightarrow> ('k \<times> 'v) list \<Rightarrow> ('k \<times> 'v) list" where
  "map_set k v [] = [(k, v)]"
| "map_set k v ((k', v') # m) = (if k = k' then (k, v) # m else (k', v') # map_set k v m)"

text \<open>\<open>m.set(f.path, f)\<close> for every file of a list, in order.\<close>

definition set_all :: "parsed_file list \<Rightarrow> (string \<times> parsed_file) list \<Rightarrow> (string \<times> parsed_file) list" where
  "set_all fs m = fold (\<lambda>f. map_set (path f) f) fs m"

subsection \<open>The final merge\<close>

text \<open>
  \<open>new Map(allFiles.map(f => [f.path, f]))\<close>, then \<open>parsed.forEach(f => map.set(...))\<close>,
  then \<open>Array.from(map.values())\<close>.
\<close>

definition merge_files :: "parsed_file list \<Rightarrow> parsed_file list \<Rightarrow> parsed_file list" where
  "merge_files allFiles parsed = map snd (set_all parsed (set_all allFiles []))"

text \<open>
  The abstraction of a file list: the map from a path to the file the list holds for it,
  the last one where the list has several (what a \<open>Map\<close> built from the list holds).
\<close>

definition files_map :: "parsed_file list \<Rightarrow> string \<rightharpoonup> parsed_file" where
  "files_map fs = map_of (rev (map (\<lambda>f. (path f, f)) fs))"

subsection \<open>Live artifacts\<close>

record artifact_info =
  art_path :: string
  linesAdded :: nat
  isNew :: bool
  art_content :: string

text \<open>\<open>allFiles.find(ef => ef.path === f.path)\<close>.\<close>

definition find_file :: "parsed_file list \<Rightarrow> string \<Rightarrow> parsed_file option" where
  "find_file fs p = find (\<lambda>f. path f = p) fs"

definition artifact_of :: "parsed_file list \<Rightarrow> parsed_file \<Rightarrow> artifact_info" where
  "artifact_of allFiles f =
     \<lparr>art_path = path f, linesAdded = length (split_on LF (content f)),
      isNew = (find_file allFiles (path f) = None), art_content = content f\<rparr>"

definition live_artifacts :: "parsed_file list \<Rightarrow> string \<Rightarrow> artifact_info list" where
  "live_artifacts allFiles assistantContent =
     map (artifact_of allFiles) (parseFilesFromResponse assistantContent)"

subsection \<open>History\<close>

definition HISTORY_CAP :: nat where "HISTORY_CAP = 20"

text \<open>
  \<open>JSON.parse(JSON.stringify(files))\<close>: a copy in which a string language stays, an
  inherited function member is dropped and \<open>Object.prototype\<close> becomes \<open>{}\<close>.
\<close>

fun json_copy_lang :: "lang_value \<Rightarrow> lang_value" where
  "json_copy_lang (Lang s) = Lang s"
| "json_copy_lang (Inherited k) = (if k = ''__proto__'' then EmptyObject else Undefined)"
| "json_copy_lang Undefined = Undefined"
| "json_copy_lang EmptyObject = EmptyObject"

definition json_copy :: "parsed_file list \<Rightarrow> parsed_file list" where
  "json_copy fs = map (\<lambda>f. f\<lparr>language := json_copy_lang (language f)\<rparr>) fs"

text \<open>\<open>[...prev, copy].slice(-20)\<close>: the last twenty entries.\<close>

definition saveToHistory :: "parsed_file list \<Rightarrow> parsed_file list list \<Rightarrow> parsed_file list list" where
  "saveToHistory files h = (let h' = h @ [json_copy files] in drop (length h' - HISTORY_CAP) h')"

text \<open>The new file list and history of \<open>undoChanges\<close>; an empty history changes nothing.\<close>

definition undoChanges :: "parsed_file list \<Rightarrow> parsed_file list list \<Rightarrow> parsed_file list \<times> parsed_file list list" where
  "undoChanges files h = (if h = [] then (files, h) else (last h, butlast h))"

text \<open>Repeated \<open>undoChanges\<close> until the history is empty: the file lists it restores.\<close>

function undo_trace :: "parsed_file list \<Rightarrow> parsed_file list list \<Rightarrow> parsed_file list list" where
  "undo_trace files h =
     (if h = [] then [] else (case undoChanges files h of (files', h') \<Rightarrow> files' # undo_trace files' h'))"
  by pat_completeness auto
termination
  by (relation "measure (\<lambda>(files, h). length h)") (auto simp: undoChanges_def)

declare undo_trace.simps [simp del]

subsection \<open>Delete and rename\<close>

text \<open>\<open>prev.filter((f) => !f.path.startsWith(path))\<close>, after saving the history.\<close>

definition deleteFile :: "string \<Rightarrow> parsed_file list \<Rightarrow> parsed_file list list \<Rightarrow> parsed_file list \<times> parsed_file list list" where
  "deleteFile p files h = (filter (\<lambda>f. \<not> prefix p (path f)) files, saveToHistory files h)"

text \<open>The path of one file after \<open>renameFile(path, newName)\<close> (lines 797--806).\<close>

definition rename_one :: "string \<Rightarrow> string \<Rightarrow> parsed_file \<Rightarrow> parsed_file" where
  "rename_one p newName f =
     (if path f = p then f\<lparr>path := join ''/'' (butlast (split_on CHR ''/'' (path f)) @ [newName])\<rparr>
      else if prefix (p @ ''/'') (path f)
      then f\<lparr>path := js_replace (path f) p (join ''/'' (butlast (split_on CHR ''/'' p) @ [newName]))\<rparr>
      else f)"

text \<open>The path a renamed file or folder gets: its parent's parts and the new name.\<close>

definition new_path :: "string \<Rightarrow> string \<Rightarrow> string" where
  "new_path p newName = join ''/'' (butlast (split_on CHR ''/'' p) @ [newName])"

definition renameFile :: "string \<Rightarrow> string \<Rightarrow> parsed_file list \<Rightarrow> parsed_file list list \<Rightarrow> parsed_file list \<times> parsed_file list list" where
  "renameFile p newName files h = (map (rename_one p newName) files, saveToHistory files h)"

text \<open>A file as \<open>parseFilesFromResponse\<close> builds it, for the examples below.\<close>

definition mk_file :: "string \<Rightarrow> string \<Rightarrow> parsed_file" where
  "mk_file p c = \<lparr>path = p, content = c, language = getLanguageFromPath p\<rparr>"

text \<open>An association list whose keys are the paths of their files.\<close>

definition well_keyed :: "(string \<times> parsed_file) list \<Rightarrow> bool" where
  "well_keyed m \<longleftrightarrow> (\<forall>(k, v) \<in> set m. k = path v)"

subsection \<open>Lemmas on the Map\<close>

lemma map_of_map_set [simp]: "map_of (map_set k v m) = (map_of m)(k \<mapsto> v)"
  by (induction m) (auto simp: fun_eq_iff)

lemma keys_map_set:
  "map fst (map_set k v m) = (if k \<in> set (map fst m) then map fst m else map fst m @ [k])"
  by (induction k v m rule: map_set.induct) force+

lemma set_map_set: "set (map_set k v m) \<subseteq> insert (k, v) (set m)"
  by (induction k v m rule: map_set.induct) auto

lemma well_keyed_map_set: "well_keyed m \<Longrightarrow> well_keyed (map_set (path f) f m)"
  using set_map_set [of "path f" f m] by (auto simp: well_keyed_def)

lemma remdups_dup_later: "x \<in> set ys \<Longrightarrow> remdups (xs @ x # ys) = remdups (xs @ ys)"
  by (induction xs) auto

lemma files_map_Nil [simp]: "files_map [] = Map.empty"
  by (simp add: files_map_def)

lemma files_map_Cons: "files_map (f # fs) = [path f \<mapsto> f] ++ files_map fs"
  by (simp add: files_map_def)

lemma files_map_append: "files_map (xs @ ys) = files_map xs ++ files_map ys"
  by (simp add: files_map_def)

lemma map_of_set_all: "map_of (set_all fs m) = map_of m ++ files_map fs"
proof (induction fs arbitrary: m)
  case Nil
  then show ?case by (simp add: set_all_def)
next
  case (Cons f fs)
  have "map_of (set_all (f # fs) m) = map_of (set_all fs (map_set (path f) f m))"
    by (simp add: set_all_def)
  also have "\<dots> = (map_of m)(path f \<mapsto> f) ++ files_map fs"
    by (simp only: Cons.IH map_of_map_set)
  finally show ?case
    by (auto simp: files_map_Cons map_add_def fun_eq_iff split: option.splits)
qed

lemma well_keyed_set_all: "well_keyed m \<Longrightarrow> well_keyed (set_all fs m)"
  by (induction fs arbitrary: m) (auto simp: set_all_def well_keyed_map_set)

lemma keys_set_all:
  "map fst (set_all fs m) = rev (remdups (rev (map fst m @ map path fs)))" if "distinct (map fst m)"
  using that
proof (induction fs arbitrary: m)
  case Nil
  then show ?case by (simp add: set_all_def distinct_remdups_id)
next
  case (Cons f fs)
  have d: "distinct (map fst (map_set (path f) f m))"
    using Cons.prems by (simp add: keys_map_set)
  have "map fst (set_all (f # fs) m) = map fst (set_all fs (map_set (path f) f m))"
    by (simp add: set_all_def)
  also have "\<dots> = rev (remdups (rev (map fst (map_set (path f) f m) @ map path fs)))"
    by (rule Cons.IH [OF d])
  also have "\<dots> = rev (remdups (rev (map fst m @ map path (f # fs))))"
    using Cons.prems by (auto simp: keys_map_set remdups_dup_later)
  finally show ?case .
qed

lemma files_map_snd:
  "well_keyed m \<Longrightarrow> distinct (map fst m) \<Longrightarrow> files_map (map snd m) = map_of m"
proof (induction m)
  case Nil
  then show ?case by simp
next
  case (Cons kv m)
  obtain k v where kv: "kv = (k, v)" by (cases kv)
  with Cons.prems have k: "k = path v" "map_of m k = None" "well_keyed m" "distinct (map fst m)"
    by (auto simp: well_keyed_def map_of_eq_None_iff)
  with Cons.IH show ?case
    by (auto simp: kv files_map_Cons map_add_def fun_eq_iff split: option.splits)
qed

lemma path_snd_well_keyed: "well_keyed m \<Longrightarrow> map path (map snd m) = map fst m"
  by (induction m) (auto simp: well_keyed_def)

lemma merge_well_keyed: "well_keyed (set_all inc (set_all cur []))"
  by (intro well_keyed_set_all) (simp add: well_keyed_def)

lemma merge_keys:
  "map fst (set_all inc (set_all cur [])) = rev (remdups (rev (map path cur @ map path inc)))"
proof -
  have "map fst (set_all cur []) = rev (remdups (rev (map path cur)))"
    by (simp add: keys_set_all)
  moreover have "distinct (map fst (set_all cur []))" by (simp add: keys_set_all)
  ultimately show ?thesis by (simp add: keys_set_all remdups_append2)
qed

subsection \<open>The merge\<close>

text \<open>
  C6. The final merge refines map override: the map a \<open>Map\<close> built from the merged list
  holds is the current store's map overridden by the incoming files' map.
\<close>

theorem merge_files_refines: "files_map (merge_files cur inc) = files_map cur ++ files_map inc"
proof -
  have "distinct (map fst (set_all inc (set_all cur [])))" by (simp add: merge_keys)
  with merge_well_keyed have "files_map (merge_files cur inc) = map_of (set_all inc (set_all cur []))"
    by (simp add: merge_files_def files_map_snd)
  then show ?thesis by (simp add: map_of_set_all)
qed

text \<open>
  C7. The merged list has every path once: the current paths keep their positions and the
  new paths follow in the order they first appear in the incoming files.
\<close>

theorem merge_files_paths:
  "map path (merge_files cur inc) = rev (remdups (rev (map path cur @ map path inc)))"
proof -
  have "map path (merge_files cur inc) = map fst (set_all inc (set_all cur []))"
    unfolding merge_files_def by (rule path_snd_well_keyed [OF merge_well_keyed])
  then show ?thesis by (simp only: merge_keys)
qed

lemma find_file_distinct: "distinct (map path fs) \<Longrightarrow> find_file fs p = files_map fs p"
proof (induction fs)
  case Nil
  then show ?case by (simp add: find_file_def)
next
  case (Cons f fs)
  then have "files_map fs (path f) = None"
    by (auto simp: files_map_def map_of_eq_None_iff)
  with Cons show ?case by (auto simp: find_file_def files_map_Cons map_add_def split: option.splits)
qed

lemma files_map_None_iff: "files_map fs p = None \<longleftrightarrow> p \<notin> set (map path fs)"
  by (force simp: files_map_def map_of_eq_None_iff)

text \<open>
  C8. The merge preserves untouched paths: looking a path up in the merged list (as the
  app does, with \<open>find\<close>) gives the incoming file for a path of the incoming files,
  the last one in text order, and the current file otherwise.
\<close>

theorem find_file_merge:
  "find_file (merge_files cur inc) p = (if p \<in> set (map path inc) then files_map inc p else files_map cur p)"
proof -
  have "distinct (map path (merge_files cur inc))" by (simp add: merge_files_paths)
  then have "find_file (merge_files cur inc) p = (files_map cur ++ files_map inc) p"
    by (simp add: find_file_distinct merge_files_refines)
  moreover have "(files_map cur ++ files_map inc) p =
      (if p \<in> set (map path inc) then files_map inc p else files_map cur p)"
  proof (cases "p \<in> set (map path inc)")
    case True
    then obtain f where "files_map inc p = Some f"
      using files_map_None_iff [of inc p] by auto
    with True show ?thesis by simp
  next
    case False
    then have "files_map inc p = None" by (simp add: files_map_None_iff)
    with False show ?thesis by (simp add: map_add_def)
  qed
  ultimately show ?thesis by simp
qed

subsection \<open>Live artifacts\<close>

lemma find_file_None_iff: "find_file fs p = None \<longleftrightarrow> p \<notin> set (map path fs)"
  by (auto simp: find_file_def find_None_iff)

text \<open>
  C9. An \<open>ArtifactInfo\<close> is new exactly when its path is absent from the store, and its
  \<open>linesAdded\<close> is the number of lines of the new content, one more than its newline
  count, whatever the old content was.
\<close>

theorem artifact_of_spec:
  "isNew (artifact_of cur f) = (path f \<notin> set (map path cur)) \<and>
   linesAdded (artifact_of cur f) = Suc (count_list (content f) LF)"
  by (simp add: artifact_of_def find_file_None_iff length_split_on)

text \<open>
  The scenario of the specification: from the store \<open>{App.tsx: v1}\<close>, a response
  with \<open>App.tsx\<close> (v2) and \<open>Header.tsx\<close> (v1) shows \<open>App.tsx\<close> as modified and
  \<open>Header.tsx\<close> as new, and merges to \<open>App.tsx\<close> v2 followed by \<open>Header.tsx\<close> v1.
\<close>

theorem scenario_new_vs_modified:
  "map (\<lambda>a. (art_path a, isNew a))
     (live_artifacts [mk_file ''App.tsx'' ''v1''] (render_response [([], ''App.tsx'', ''v2''), ([], ''Header.tsx'', ''v1'')] []))
     = [(''App.tsx'', False), (''Header.tsx'', True)]
   \<and> map (\<lambda>f. (path f, content f))
     (merge_files [mk_file ''App.tsx'' ''v1''] (parseFilesFromResponse (render_response [([], ''App.tsx'', ''v2''), ([], ''Header.tsx'', ''v1'')] [])))
     = [(''App.tsx'', ''v2''), (''Header.tsx'', ''v1'')]"
  by code_simp

subsection \<open>History\<close>

lemma saveToHistory_drop:
  "saveToHistory s h = drop (Suc (length h) - HISTORY_CAP) h @ [json_copy s]"
  by (simp add: saveToHistory_def HISTORY_CAP_def)

lemma saveToHistory_length: "length (saveToHistory s h) = min (Suc (length h)) HISTORY_CAP"
  by (simp add: saveToHistory_drop HISTORY_CAP_def)

lemma undo_after_save:
  "undoChanges files (saveToHistory s h) = (json_copy s, drop (Suc (length h) - HISTORY_CAP) h)"
  by (simp add: undoChanges_def saveToHistory_drop)

lemma json_copy_strings: "\<forall>f \<in> set s. \<exists>l. language f = Lang l \<Longrightarrow> json_copy s = s"
  by (induction s) (auto simp: json_copy_def)

text \<open>
  C11. Undo is the inverse of one merge: after \<open>saveToHistory\<close> of a store whose
  languages are strings and a merge, \<open>undoChanges\<close> gives the store back and leaves the
  history as it was (below the cap). A language that is an inherited member does not
  survive the JSON copy.
\<close>

theorem undo_merge:
  assumes "\<forall>f \<in> set S. \<exists>l. language f = Lang l" and "length h < HISTORY_CAP"
  shows "undoChanges (merge_files S I) (saveToHistory S h) = (S, h)"
  using assms by (simp add: undo_after_save json_copy_strings)

theorem undo_merge_witness:
  "language (mk_file ''App.tsx'' ''v1'') = Lang ''tsx'' \<and> length ([] :: parsed_file list list) < HISTORY_CAP \<and>
   undoChanges (merge_files [mk_file ''App.tsx'' ''v1''] [mk_file ''App.tsx'' ''v2''])
     (saveToHistory [mk_file ''App.tsx'' ''v1''] []) = ([mk_file ''App.tsx'' ''v1''], [])"
proof -
  have t: "language (mk_file ''App.tsx'' ''v1'') = Lang ''tsx''"
    by (simp add: mk_file_def getLanguageFromPath_def language_table_def js_simps)
  then have l: "\<forall>f \<in> set [mk_file ''App.tsx'' ''v1'']. \<exists>l. language f = Lang l" by simp
  have h: "length ([] :: parsed_file list list) < HISTORY_CAP" by (simp add: HISTORY_CAP_def)
  from undo_merge [OF l h] t h show ?thesis by simp
qed

lemma fold_saveToHistory:
  "length h \<le> HISTORY_CAP \<Longrightarrow>
     fold saveToHistory ss h = drop (length h + length ss - HISTORY_CAP) (h @ map json_copy ss)"
proof (induction ss arbitrary: h)
  case Nil
  then show ?case by simp
next
  case (Cons s ss)
  let ?h' = "saveToHistory s h"
  have len: "length ?h' \<le> HISTORY_CAP" by (simp add: saveToHistory_length)
  have IH: "fold saveToHistory (s # ss) h = drop (length ?h' + length ss - HISTORY_CAP) (?h' @ map json_copy ss)"
    using Cons.IH [OF len] by simp
  show ?case
  proof (cases "length h < HISTORY_CAP")
    case True
    then have "?h' = h @ [json_copy s]" by (simp add: saveToHistory_drop)
    with IH True show ?thesis by simp
  next
    case False
    with Cons.prems have h20: "length h = HISTORY_CAP" by simp
    then have "?h' = drop 1 h @ [json_copy s]" by (simp add: saveToHistory_drop)
    with IH h20 show ?thesis by (simp add: HISTORY_CAP_def)
  qed
qed

lemma undo_trace_snoc: "undo_trace files (h @ [x]) = x # undo_trace x h"
  by (subst undo_trace.simps) (simp add: undoChanges_def)

lemma undo_trace_rev: "undo_trace files h = rev h"
proof (induction h arbitrary: files rule: rev_induct)
  case Nil
  then show ?case by (simp add: undo_trace.simps)
next
  case (snoc x h)
  then show ?case by (simp add: undo_trace_snoc)
qed

text \<open>
  C12. The history is bounded: after any sequence of saves from an empty history, repeated
  undo restores exactly the copies of the last twenty snapshots, newest first; older
  snapshots are unrecoverable.
\<close>

theorem history_bound:
  "undo_trace files (fold saveToHistory ss []) = rev (map json_copy (drop (length ss - HISTORY_CAP) ss))"
  by (simp add: undo_trace_rev fold_saveToHistory drop_map)

subsection \<open>Delete and rename\<close>


lemma new_path_no_dollar:
  "CHR ''$'' \<notin> set p \<Longrightarrow> CHR ''$'' \<notin> set newName \<Longrightarrow> CHR ''$'' \<notin> set (new_path p newName)"
proof
  assume p: "CHR ''$'' \<notin> set p" and n: "CHR ''$'' \<notin> set newName"
    and "CHR ''$'' \<in> set (new_path p newName)"
  then obtain w where "w \<in> set (butlast (split_on CHR ''/'' p) @ [newName])" "CHR ''$'' \<in> set w"
    using set_join [of "''/''" "butlast (split_on CHR ''/'' p) @ [newName]"] by (auto simp: new_path_def)
  with p n show False by (auto dest: in_set_butlastD split_on_subset)
qed

lemma rename_one_path:
  assumes "CHR ''$'' \<notin> set p" "CHR ''$'' \<notin> set newName"
  shows "path (rename_one p newName f) =
           (if path f = p \<or> prefix (p @ ''/'') (path f) then new_path p newName @ drop (length p) (path f)
            else path f)"
proof -
  have nd: "CHR ''$'' \<notin> set (new_path p newName)" using assms by (rule new_path_no_dollar)
  show ?thesis
  proof (cases "path f = p")
    case True
    then show ?thesis by (simp add: rename_one_def new_path_def)
  next
    case False
    show ?thesis
    proof (cases "prefix (p @ ''/'') (path f)")
      case True
      then have "prefix p (path f)" by (rule append_prefixD)
      with True False nd show ?thesis
        by (simp add: rename_one_def js_replace_prefix get_substitution_no_dollar new_path_def [symmetric])
    next
      case False
      with \<open>path f \<noteq> p\<close> show ?thesis by (simp add: rename_one_def)
    qed
  qed
qed

text \<open>
  C14. \<open>renameFile\<close> moves the renamed file, or every file under the renamed folder, to
  the new name in the same parent folder, keeping the rest of each path, and leaves other
  files alone; contents and languages are kept, so a renamed file keeps the language of
  its old extension. (Paths and names are free of \<open>$\<close>, which \<open>replace\<close> would
  interpret in the new prefix.)
\<close>

theorem renameFile_moves:
  assumes "CHR ''$'' \<notin> set p" "CHR ''$'' \<notin> set newName"
  shows "map path (fst (renameFile p newName fs h)) =
           map (\<lambda>q. if q = p \<or> prefix (p @ ''/'') q then new_path p newName @ drop (length p) q else q) (map path fs)
         \<and> map content (fst (renameFile p newName fs h)) = map content fs
         \<and> map language (fst (renameFile p newName fs h)) = map language fs"
proof -
  have "map path (fst (renameFile p newName fs h)) =
          map (\<lambda>q. if q = p \<or> prefix (p @ ''/'') q then new_path p newName @ drop (length p) q else q) (map path fs)"
    using rename_one_path [OF assms] by (simp add: renameFile_def)
  moreover have "map content (fst (renameFile p newName fs h)) = map content fs"
    by (simp add: renameFile_def rename_one_def comp_def)
  moreover have "map language (fst (renameFile p newName fs h)) = map language fs"
    by (simp add: renameFile_def rename_one_def comp_def)
  ultimately show ?thesis by blast
qed

theorem renameFile_moves_witness:
  "CHR ''$'' \<notin> set ''src'' \<and> CHR ''$'' \<notin> set ''app'' \<and>
   map path (fst (renameFile ''src'' ''app'' [mk_file ''src/a.ts'' ''x'', mk_file ''b.ts'' ''y''] [])) =
     [''app/a.ts'', ''b.ts'']"
proof -
  have d: "CHR ''$'' \<notin> set ''src''" "CHR ''$'' \<notin> set ''app''" by simp_all
  from renameFile_moves [OF d, of "[mk_file ''src/a.ts'' ''x'', mk_file ''b.ts'' ''y'']" "[]"] d
  show ?thesis by (simp add: mk_file_def new_path_def)
qed


lemma renameFile_dollar:
  "map path (fst (renameFile ''src'' ''x$&'' [mk_file ''src/a.ts'' ''x''] h)) = [''xsrc/a.ts'']"
  by (simp add: renameFile_def rename_one_def mk_file_def js_simps)

end
