(* ===== verification/Stream.thy ===== *)
theory Stream
  imports Json Store
begin

text \<open>
  The StreamIngestor on the client side of the wire, and the parts it shares with the
  server relay (\<open>Route\<close>).  Both ends read a body as chunks of text, keep one pending
  partial line in \<open>buffer\<close>, split \<open>buffer + chunk\<close> on newlines, hand every complete
  line to a line handler and keep the last piece (\<open>route.ts\<close> lines 73--99,
  \<open>page.tsx\<close> lines 881--924).  \<open>TextDecoder\<close> is the identity: text is a list of
  8-bit characters, so a multi-byte character cut by a chunk boundary does not arise.
\<close>

subsection \<open>Line buffering\<close>

text \<open>One iteration of the read loop: \<open>buffer += chunk; lines = buffer.split("\n");
  buffer = lines.pop() || ""\<close>, then the handler on each complete line, in order.
  \<open>split\<close> returns at least one piece, so \<open>pop\<close> never gives \<open>undefined\<close>.\<close>

definition feed_lines :: "('s \<Rightarrow> string \<Rightarrow> 's) \<Rightarrow> string \<times> 's \<Rightarrow> string \<Rightarrow> string \<times> 's" where
  "feed_lines handle bs chunk =
     (let lines = split_on LF (fst bs @ chunk) in (last lines, fold (\<lambda>l s. handle s l) (butlast lines) (snd bs)))"

text \<open>The record filter of both ends: the trimmed line must start with \<open>data: \<close>, and
  the payload after it must not be the sentinel \<open>[DONE]\<close>, which is skipped with
  \<open>continue\<close>.\<close>

definition DATA_PREFIX :: string where "DATA_PREFIX = ''data: ''"
definition DONE_SENTINEL :: string where "DONE_SENTINEL = ''[DONE]''"

definition sse_payload :: "string \<Rightarrow> string option" where
  "sse_payload line =
     (let t = trim line in
      if t = [] \<or> \<not> prefix DATA_PREFIX t then None
      else let d = drop 6 t in if d = DONE_SENTINEL then None else Some d)"

subsection \<open>The client's read loop\<close>

text \<open>The state \<open>sendMessage\<close> keeps while the answer streams: \<open>assistantContent\<close>
  and the artifact list it shows on the last message.\<close>

record client_state =
  assistantContent :: string
  live :: "artifact_info list"

definition client_init :: client_state where
  "client_init = \<lparr>assistantContent = [], live = []\<rparr>"

text \<open>The body of \<open>for (const line of lines)\<close>: a record whose \<open>content\<close> is truthy
  is appended (with the string conversion of \<open>+=\<close>), and the artifacts are recomputed
  from the whole content against \<open>allFiles\<close> as the closure captured it.  A payload
  that is not JSON, or a read on \<open>null\<close>, throws into the empty \<open>catch\<close>.\<close>

definition client_line :: "parsed_file list \<Rightarrow> client_state \<Rightarrow> string \<Rightarrow> client_state" where
  "client_line allFiles st line =
     (case sse_payload line \<bind> JSON_parse \<bind> get_prop ''content'' of
        Some v \<Rightarrow>
          if truthy v then
            (let a = assistantContent st @ js_to_string v in
             \<lparr>assistantContent = a, live = live_artifacts allFiles a\<rparr>)
          else st
      | None \<Rightarrow> st)"

text \<open>The loop \<open>while (true) { ... if (done) break; ... }\<close> over the chunks of a body
  that ends normally; the pending line left at the end is dropped.\<close>

definition client_read :: "parsed_file list \<Rightarrow> string list \<Rightarrow> string \<times> client_state" where
  "client_read allFiles chunks = fold (\<lambda>c bs. feed_lines (client_line allFiles) bs c) chunks ([], client_init)"

text \<open>The line of one content record as the relay writes it, \<open>data: {"content":...}\<close>
  (\<open>route.ts\<close> line 92, without its two newlines).\<close>

definition record_line :: "jval \<Rightarrow> string" where
  "record_line v = DATA_PREFIX @ json_stringify (JObj [(''content'', v)])"

subsection \<open>Lemmas\<close>

lemma split_on_append_last:
  "split_on c (xs @ ys) = butlast (split_on c xs) @ split_on c (last (split_on c xs) @ ys)"
proof -
  have "c \<notin> set (last (split_on c xs))"
    using split_on_no_sep [of "last (split_on c xs)" c xs] by simp
  then have "split_on c (last (split_on c xs) @ ys) =
      (last (split_on c xs) @ hd (split_on c ys)) # tl (split_on c ys)"
    using split_on_append [of c "last (split_on c xs)" ys] by (simp add: split_on_no_sep_iff)
  then show ?thesis by (simp add: split_on_append)
qed

lemma feed_lines_fold:
  assumes "LF \<notin> set buf"
  shows "fold (\<lambda>c bs. feed_lines h bs c) chunks (buf, s) =
     (last (split_on LF (buf @ concat chunks)),
      fold (\<lambda>l s. h s l) (butlast (split_on LF (buf @ concat chunks))) s)"
  using assms
proof (induction chunks arbitrary: buf s)
  case Nil
  then show ?case by (simp add: split_on_no_sep_iff)
next
  case (Cons c cs)
  let ?L = "split_on LF (buf @ c)"
  have nb: "LF \<notin> set (last ?L)" using split_on_no_sep [of "last ?L" LF "buf @ c"] by simp
  have "split_on LF (buf @ c @ concat cs) = butlast ?L @ split_on LF (last ?L @ concat cs)"
    using split_on_append_last [of LF "buf @ c" "concat cs"] by simp
  with Cons.IH [OF nb] show ?case
    by (simp add: feed_lines_def Let_def butlast_append)
qed

text \<open>C17. The client's read loop is equivalent to splitting the whole body at once:
  its result depends only on the concatenation of the chunks, not on where the network
  cut them.\<close>

theorem client_read_chunking:
  "client_read allFiles chunks = client_read allFiles [concat chunks]"
proof -
  have "\<And>cs. client_read allFiles cs = (last (split_on LF (concat cs)),
      fold (\<lambda>l s. client_line allFiles s l) (butlast (split_on LF (concat cs))) client_init)"
    by (simp add: client_read_def feed_lines_fold)
  then show ?thesis by simp
qed

lemma get_prop_wf:
  assumes "get_prop k v = Some w" "wf_jval v"
  shows "wf_jval w"
proof (cases v)
  case (JArr vs)
  then show ?thesis using assms by (cases vs) (auto split: if_splits)
next
  case (JObj kvs)
  then show ?thesis using assms by (auto simp: list_all_iff dest!: map_of_SomeD)
qed (use assms in \<open>auto split: if_splits\<close>)

lemma trim_record:
  assumes "LF \<notin> set j" "j \<noteq> []" "\<not> is_ws (last j)"
  shows "trim (DATA_PREFIX @ j) = DATA_PREFIX @ j"
  using assms by (simp add: trim_def trim_end_no_ws_last trim_start_no_ws_hd DATA_PREFIX_def is_ws_def ws_chars_def)

lemma client_line_record:
  assumes "wf_jval v" "truthy v"
  shows "client_line allFiles st (record_line v) =
     \<lparr>assistantContent = assistantContent st @ js_to_string v,
      live = live_artifacts allFiles (assistantContent st @ js_to_string v)\<rparr>"
proof -
  let ?j = "json_stringify (JObj [(''content'', v)])"
  have wf: "wf_jval (JObj [(''content'', v)])" using assms(1) by simp
  have j: "?j = CHR ''{'' # json_quote ''content'' @ CHR '':'' # json_stringify v @ ''}''" by simp
  have "trim (DATA_PREFIX @ ?j) = DATA_PREFIX @ ?j"
    using json_stringify_no_LF [OF wf] by (intro trim_record) (simp_all add: is_ws_def ws_chars_def)
  moreover have "drop 6 (DATA_PREFIX @ ?j) = ?j" by (simp add: DATA_PREFIX_def)
  moreover have "?j \<noteq> DONE_SENTINEL" by (simp add: DONE_SENTINEL_def)
  ultimately have "sse_payload (DATA_PREFIX @ ?j) = Some ?j"
    by (simp add: sse_payload_def Let_def DATA_PREFIX_def)
  with JSON_parse_stringify [OF wf] assms(2) show ?thesis
    by (simp add: client_line_def Let_def record_line_def)
qed

lemma client_line_blank: "client_line allFiles st [] = st"
  by (simp add: client_line_def sse_payload_def trim_def trim_start_def trim_end_def)

lemma client_line_done: "client_line allFiles st (DATA_PREFIX @ DONE_SENTINEL) = st"
proof -
  have "sse_payload (DATA_PREFIX @ DONE_SENTINEL) = None"
    by (simp add: sse_payload_def DATA_PREFIX_def DONE_SENTINEL_def trim_def trim_start_def trim_end_def is_ws_def ws_chars_def)
  then show ?thesis by (simp add: client_line_def)
qed

lemma client_read_split:
  "client_read allFiles cs = (last (split_on LF (concat cs)),
     fold (\<lambda>l s. client_line allFiles s l) (butlast (split_on LF (concat cs))) client_init)"
  by (simp add: client_read_def feed_lines_fold)

lemma split_on_ends_LF: "xs = [] \<or> last xs = LF \<Longrightarrow> last (split_on LF xs) = []"
  by (cases xs rule: rev_cases) (auto simp: split_on_append_sep)

lemma record_no_LF: "wf_jval v \<Longrightarrow> LF \<notin> set (record_line v)"
  using json_stringify_no_LF [of "JObj [(''content'', v)]"] by (simp add: DATA_PREFIX_def record_line_def)

text \<open>C20. \<open>[DONE]\<close> does not end the client's processing: a record after it is still
  appended to the answer.\<close>

theorem client_continues_after_done:
  assumes "wf_jval v" "truthy v"
  shows "assistantContent (snd (client_read allFiles
      [DATA_PREFIX @ DONE_SENTINEL @ [LF] @ record_line v @ [LF]])) =
    js_to_string v"
proof -
  let ?r = "record_line v"
  have "LF \<notin> set ?r" using record_no_LF [OF assms(1)] .
  then have "split_on LF ((DATA_PREFIX @ DONE_SENTINEL) @ LF # ?r @ [LF]) = [DATA_PREFIX @ DONE_SENTINEL, ?r, []]"
    using split_on_append_sep [of LF "DATA_PREFIX @ DONE_SENTINEL" "?r @ [LF]"]
      split_on_append_sep [of LF ?r "[]"]
    by (simp add: split_on_no_sep_iff DATA_PREFIX_def DONE_SENTINEL_def)
  then show ?thesis
    using assms by (simp add: client_read_split client_line_done client_line_record client_init_def)
qed

theorem client_continues_after_done_witness:
  "wf_jval (JStr ''more'') \<and> truthy (JStr ''more'') \<and>
   assistantContent (snd (client_read []
      [DATA_PREFIX @ DONE_SENTINEL @ [LF] @ record_line (JStr ''more'') @ [LF]])) =
    ''more''"
  using client_continues_after_done [of "JStr ''more''" "[]"] by simp

text \<open>A record whose payload is not JSON is skipped and changes nothing for the
  records around it.\<close>

theorem client_skips_malformed:
  assumes "sse_payload l \<bind> JSON_parse = None"
  shows "fold (\<lambda>l s. client_line allFiles s l) (xs @ l # ys) st = fold (\<lambda>l s. client_line allFiles s l) (xs @ ys) st"
proof -
  have "client_line allFiles s l = s" for s using assms by (simp add: client_line_def)
  then show ?thesis by simp
qed

theorem client_skips_malformed_witness:
  "sse_payload ''data: {oops'' \<bind> JSON_parse = None \<and>
   fold (\<lambda>l s. client_line [] s l) ([''data: {oops''] @ ''data: {oops'' # []) client_init =
   fold (\<lambda>l s. client_line [] s l) ([''data: {oops''] @ []) client_init"
proof -
  have h: "sse_payload ''data: {oops'' \<bind> JSON_parse = None" by code_simp
  from client_skips_malformed [OF h, of "[]" "[''data: {oops'']" "[]" client_init] h show ?thesis by simp
qed

text \<open>C22. A last record without its newline stays in the buffer and is never processed.\<close>

theorem client_drops_partial_line:
  assumes "concat cs = [] \<or> last (concat cs) = LF" and "LF \<notin> set l"
  shows "client_read allFiles (cs @ [l]) = (l, snd (client_read allFiles cs))"
proof -
  have "split_on LF (concat cs @ l) = butlast (split_on LF (concat cs)) @ [l]"
    using split_on_append_last [of LF "concat cs" l] split_on_ends_LF [OF assms(1)] assms(2)
    by (simp add: split_on_no_sep_iff)
  then show ?thesis by (simp add: client_read_split)
qed

theorem client_drops_partial_line_witness:
  "(concat [record_line (JStr ''a'') @ [LF]] = [] \<or>
    last (concat [record_line (JStr ''a'') @ [LF]]) = LF) \<and>
   LF \<notin> set (record_line (JStr ''b'')) \<and>
   assistantContent (snd (client_read [] [record_line (JStr ''a'') @ [LF],
      record_line (JStr ''b'')])) = ''a''"
proof -
  let ?a = "record_line (JStr ''a'')"
  let ?b = "record_line (JStr ''b'')"
  have h1: "concat [?a @ [LF]] = [] \<or> last (concat [?a @ [LF]]) = LF" by simp
  have h2: "LF \<notin> set ?b" using record_no_LF [of "JStr ''b''"] by simp
  have "split_on LF (?a @ [LF]) = [?a, []]"
    using split_on_append_sep [of LF ?a "[]"] record_no_LF [of "JStr ''a''"] by (simp add: split_on_no_sep_iff)
  then have "assistantContent (snd (client_read [] [?a @ [LF]])) = ''a''"
    by (simp add: client_read_split client_line_record client_line_blank client_init_def)
  with client_drops_partial_line [OF h1 h2, of "[]"] h1 h2 show ?thesis by simp
qed

end
