(* ===== verification/Route.thy ===== *)
theory Route
  imports Stream
begin

text \<open>
  The chat route \<open>src/src/app/api/chat/route.ts\<close>: \<open>POST\<close> reads the request's
  \<open>messages\<close> and \<open>model\<close>, refuses without an API key, forwards the conversation
  behind the system prompt to the upstream completion service, and relays the upstream
  event stream as a stream of \<open>data: {"content": ...}\<close> records closed by
  \<open>data: [DONE]\<close>.  The upstream service is a parameter \<open>fetch\<close> from the request
  body to its response; the environment's API key is a parameter.
\<close>

subsection \<open>Constants\<close>

definition SYSTEM_PROMPT :: string where
  "SYSTEM_PROMPT = join [LF]
     [''You are an expert full-stack developer AI assistant. When the user asks you to build something, you MUST respond with working code.'',
      '''',
      ''IMPORTANT RULES:'',
      ''1. Always respond with complete, working code files.'',
      ''2. Use the following format to specify files:'',
      '''',
      ''---FILE: path/to/file.ext---'',
      ''(file content here)'',
      ''---END FILE---'',
      '''',
      ''3. You can create multiple files in one response.'',
      ''4. Use React/Next.js with TypeScript and Tailwind CSS.'',
      ''5. Make the code functional, clean and well-structured.'',
      ''6. If the user asks a question (not to build), respond normally without file blocks.'',
      ''7. Always include ALL necessary imports and exports.'',
      ''8. Keep code concise but complete.'']"

definition DEFAULT_MODEL :: string where "DEFAULT_MODEL = ''google/gemini-2.0-flash-001''"

subsection \<open>The relay\<close>

text \<open>\<open>parsed.choices?.[0]?.delta?.content\<close>, kept when truthy.\<close>

definition upstream_content :: "jval \<Rightarrow> jval option" where
  "upstream_content p = do {
     cs \<leftarrow> get_prop ''choices'' p;
     c0 \<leftarrow> get_prop ''0'' cs;
     d \<leftarrow> get_prop ''delta'' c0;
     v \<leftarrow> get_prop ''content'' d;
     if truthy v then Some v else None
   }"

text \<open>The record enqueued for one content fragment:
  \<open>data: ${JSON.stringify({ content })}\n\n\<close>.\<close>

definition content_record :: "jval \<Rightarrow> string" where
  "content_record v = DATA_PREFIX @ json_stringify (JObj [(''content'', v)]) @ [LF, LF]"

definition DONE_RECORD :: string where
  "DONE_RECORD = DATA_PREFIX @ DONE_SENTINEL @ [LF, LF]"

text \<open>The line handler of the relay: the records it has enqueued so far, extended by
  the record of one upstream line.  A payload that is not JSON is skipped by the inner
  \<open>catch\<close>.\<close>

definition relay_value :: "string \<Rightarrow> jval option" where
  "relay_value line = sse_payload line \<bind> JSON_parse \<bind> upstream_content"

definition server_line :: "string list \<Rightarrow> string \<Rightarrow> string list" where
  "server_line out line =
     (case relay_value line of
        Some v \<Rightarrow> out @ [content_record v]
      | None \<Rightarrow> out)"

text \<open>How an upstream body ends: \<open>reader.read()\<close> resolves with \<open>done\<close>, or rejects
  (a network error).\<close>

datatype read_end = ReadDone | ReadError

text \<open>\<open>start(controller)\<close>: the read loop over the chunks of the upstream body; the
  outer \<open>catch\<close> only logs a read error, and \<open>finally\<close> enqueues \<open>[DONE]\<close> in both
  cases.  The pending line at the end is dropped.\<close>

definition relay_stream :: "string list \<Rightarrow> read_end \<Rightarrow> string list" where
  "relay_stream chunks e =
     (let (buf, out) = fold (\<lambda>c bs. feed_lines server_line bs c) chunks ([], [])
      in case e of ReadDone \<Rightarrow> out @ [DONE_RECORD] | ReadError \<Rightarrow> out @ [DONE_RECORD])"

subsection \<open>The handler\<close>

text \<open>What \<open>fetch\<close> to the upstream service gives: a response with its status and,
  unless \<open>response.body\<close> is null, its body as chunks with how the body ends; or a
  rejected promise.\<close>

datatype upstream = UpResponse nat "(string list \<times> read_end) option" | UpRejects

datatype http_response = JsonResponse nat jval | EventStream "string list"

definition error_json :: "nat \<Rightarrow> string \<Rightarrow> http_response" where
  "error_json st msg = JsonResponse st (JObj [(''error'', JStr msg)])"

text \<open>The decimal text of a status code in a template literal.\<close>

fun nat_str :: "nat \<Rightarrow> string" where
  "nat_str n = (if n < 10 then [char_of (48 + n)] else nat_str (n div 10) @ [char_of (48 + n mod 10)])"

text \<open>\<open>...messages\<close> in an array literal: an array spreads its elements, a string its
  characters; anything else (\<open>undefined\<close>, \<open>null\<close>, a number, an object) is not
  iterable and throws.\<close>

definition spread_iterable :: "jval option \<Rightarrow> jval list option" where
  "spread_iterable m =
     (case m of
        Some (JArr vs) \<Rightarrow> Some vs
      | Some (JStr s) \<Rightarrow> Some (map (\<lambda>c. JStr [c]) s)
      | _ \<Rightarrow> None)"

definition upstream_request :: "jval list \<Rightarrow> jval option \<Rightarrow> string" where
  "upstream_request ms model =
     json_stringify (JObj
       [(''model'', (case model of Some m \<Rightarrow> if truthy m then m else JStr DEFAULT_MODEL | None \<Rightarrow> JStr DEFAULT_MODEL)),
        (''messages'', JArr (JObj [(''role'', JStr ''system''), (''content'', JStr SYSTEM_PROMPT)] # ms)),
        (''stream'', JBool True)])"

text \<open>\<open>POST\<close>.  \<open>req.json()\<close> that fails, destructuring \<open>null\<close>, a spread that throws,
  a rejected \<open>fetch\<close> and a failing \<open>response.text()\<close> all land in the outer
  \<open>catch\<close>: status 500, \<open>Internal server error\<close>.  A missing or empty key is refused
  before the upstream is called; a status outside 200--299 is answered with the upstream's
  status and text.\<close>

text \<open>\<open>Response.json(data, {status})\<close> throws a \<open>RangeError\<close> for a status outside
  200--599 and a \<open>TypeError\<close> for a null body status (101, 103, 204, 205, 304), since
  its body is not null; the route's \<open>catch\<close> then answers 500.\<close>

definition null_body_status :: "nat \<Rightarrow> bool" where
  "null_body_status st \<longleftrightarrow> st \<in> {101, 103, 204, 205, 304}"

definition response_json :: "nat \<Rightarrow> string \<Rightarrow> http_response" where
  "response_json st msg =
     (if 200 \<le> st \<and> st \<le> 599 \<and> \<not> null_body_status st then error_json st msg
      else error_json 500 ''Internal server error'')"

definition POST :: "string option \<Rightarrow> (string \<Rightarrow> upstream) \<Rightarrow> string \<Rightarrow> http_response" where
  "POST api_key fetch req =
     (case JSON_parse req of
        None \<Rightarrow> error_json 500 ''Internal server error''
      | Some r \<Rightarrow>
          if r = JNull then error_json 500 ''Internal server error''
          else if api_key = None \<or> api_key = Some [] then error_json 500 ''OpenRouter API key not configured''
          else
            (case spread_iterable (get_prop ''messages'' r) of
               None \<Rightarrow> error_json 500 ''Internal server error''
             | Some ms \<Rightarrow>
                 (case fetch (upstream_request ms (get_prop ''model'' r)) of
                    UpRejects \<Rightarrow> error_json 500 ''Internal server error''
                  | UpResponse st body \<Rightarrow>
                      if 200 \<le> st \<and> st \<le> 299 then
                        (case body of
                           None \<Rightarrow> EventStream []
                         | Some (chunks, e) \<Rightarrow> EventStream (relay_stream chunks e))
                      else
                        (case body of
                           None \<Rightarrow> response_json st (''OpenRouter error: '' @ nat_str st @ '' - '')
                         | Some (chunks, ReadDone) \<Rightarrow>
                             response_json st (''OpenRouter error: '' @ nat_str st @ '' - '' @ concat chunks)
                         | Some (chunks, ReadError) \<Rightarrow> error_json 500 ''Internal server error''))))"

subsection \<open>What the relay emits\<close>

text \<open>The content values of the complete lines of an upstream body, in order: the
  specification of what the relay forwards.\<close>

definition upstream_values :: "string list \<Rightarrow> jval list" where
  "upstream_values chunks = List.map_filter relay_value (butlast (split_on LF (concat chunks)))"

lemma content_record_line: "content_record = (\<lambda>v. record_line v @ [LF, LF])"
  by (simp add: fun_eq_iff content_record_def record_line_def)

lemma relay_value_ok:
  assumes "relay_value l = Some v"
  shows "wf_jval v \<and> truthy v"
proof -
  from assms obtain d p where "JSON_parse d = Some p" "upstream_content p = Some v"
    by (auto simp: relay_value_def bind_eq_Some_conv)
  moreover from this(2) obtain cs c0 d' where
    "get_prop ''choices'' p = Some cs" "get_prop ''0'' cs = Some c0" "get_prop ''delta'' c0 = Some d'"
    "get_prop ''content'' d' = Some v" "truthy v"
    by (auto simp: upstream_content_def bind_eq_Some_conv split: if_splits)
  ultimately show ?thesis
    using JSON_parse_wf get_prop_wf by meson
qed

lemma fold_server_line:
  "fold (\<lambda>l s. server_line s l) ls out = out @ map content_record (List.map_filter relay_value ls)"
  by (induction ls arbitrary: out) (auto simp: server_line_def List.map_filter_def split: option.splits)

lemma relay_stream_records:
  "relay_stream chunks e = map content_record (upstream_values chunks) @ [DONE_RECORD]"
  by (cases e) (simp_all add: relay_stream_def feed_lines_fold fold_server_line upstream_values_def)

text \<open>C18. The relay forwards exactly one record per complete upstream line whose content
  is truthy, in order, and closes the stream with \<open>[DONE]\<close>, whether the upstream body
  ended normally or with a read error.\<close>

theorem relay_stream_values:
  "relay_stream chunks e = map content_record (upstream_values chunks) @ [DONE_RECORD]"
  by (rule relay_stream_records)

subsection \<open>Errors of the handler\<close>

text \<open>C23. Without an API key the request is refused with status 500 before the upstream
  service is called: the answer does not depend on \<open>fetch\<close>.\<close>

theorem POST_no_key:
  assumes "api_key = None \<or> api_key = Some []" "JSON_parse req = Some r" "r \<noteq> JNull"
  shows "POST api_key fetch req = error_json 500 ''OpenRouter API key not configured''"
  using assms by (auto simp: POST_def)

theorem POST_no_key_witness:
  "(None = None \<or> None = Some []) \<and> JSON_parse ''{}'' = Some (JObj []) \<and> JObj [] \<noteq> JNull \<and>
   POST None (\<lambda>b. UpRejects) ''{}'' = error_json 500 ''OpenRouter API key not configured''"
proof -
  have h: "JSON_parse ''{}'' = Some (JObj [])" by code_simp
  from POST_no_key [OF _ h, of None] h show ?thesis by simp
qed



end
