(* ===== verification/FileTree.thy ===== *)
theory FileTree
  imports FileBlocks "HOL-Library.Product_Lexorder" "HOL-Library.Multiset"
begin

text \<open>
  The FileTreeBuilder: \<open>buildFileTree\<close> (\<open>page.tsx\<close> lines 132--164) turns the flat
  file list into a forest of folders and files by the \<open>/\<close>-separated segments of each
  path, and \<open>FileTreeView\<close> (lines 172--296) lists each level folders first, then by
  name, and shows the children of a folder unless it was collapsed.
\<close>

datatype node_type = File | Folder

text \<open>\<open>FileNode\<close>: the optional \<open>children\<close>, \<open>content\<close> and \<open>language\<close> are options.\<close>

datatype file_node =
  Node (fn_name: string) (fn_path: string) (fn_type: node_type) (children: "file_node list option")
       (fn_content: "string option") (fn_language: "lang_value option")

fun first_index :: "('a \<Rightarrow> bool) \<Rightarrow> 'a list \<Rightarrow> nat option" where
  "first_index P [] = None"
| "first_index P (x # xs) = (if P x then Some 0 else map_option Suc (first_index P xs))"

text \<open>One pass of the inner loop from segment \<open>name\<close> on, \<open>pre\<close> the segments before it and
  \<open>cur\<close> the list \<open>current\<close> points to.  An existing node of that name is entered when it
  is a folder; when it is a file, \<open>current\<close> is left unchanged and the remaining segments
  go into the same list.  A missing node is pushed, a file for the last segment and an
  empty folder, entered next, otherwise.\<close>

fun insert_parts :: "parsed_file \<Rightarrow> string list \<Rightarrow> string list \<Rightarrow> file_node list \<Rightarrow> file_node list" where
  "insert_parts f pre [] cur = cur"
| "insert_parts f pre (name # rest) cur =
     (case first_index (\<lambda>n. fn_name n = name) cur of
        Some k \<Rightarrow>
          (case cur ! k of
             Node n p Folder (Some ch) c l \<Rightarrow> cur[k := Node n p Folder (Some (insert_parts f (pre @ [name]) rest ch)) c l]
           | _ \<Rightarrow> insert_parts f (pre @ [name]) rest cur)
      | None \<Rightarrow>
          if rest = [] then cur @ [Node name (join ''/'' (pre @ [name])) File None (Some (content f)) (Some (language f))]
          else cur @ [Node name (join ''/'' (pre @ [name])) Folder (Some (insert_parts f (pre @ [name]) rest [])) None None])"

definition buildFileTree :: "parsed_file list \<Rightarrow> file_node list" where
  "buildFileTree files = fold (\<lambda>f root. insert_parts f [] (split_on (CHR ''/'') (path f)) root) files []"

subsection \<open>Names are distinct at every level\<close>

fun nodes_ok :: "file_node list \<Rightarrow> bool" and node_ok :: "file_node \<Rightarrow> bool" where
  "nodes_ok [] = True"
| "nodes_ok (n # ns) = (node_ok n \<and> nodes_ok ns)"
| "node_ok (Node nm p t None c l) = True"
| "node_ok (Node nm p t (Some cs) c l) = (distinct (map fn_name cs) \<and> nodes_ok cs)"

definition distinct_names :: "file_node list \<Rightarrow> bool" where
  "distinct_names ns \<longleftrightarrow> distinct (map fn_name ns) \<and> nodes_ok ns"

lemma nodes_ok_iff: "nodes_ok ns \<longleftrightarrow> (\<forall>n \<in> set ns. node_ok n)"
  by (induction ns) auto

lemma first_index_None: "first_index P xs = None \<longleftrightarrow> (\<forall>x \<in> set xs. \<not> P x)"
  by (induction xs) auto

lemma first_index_Some: "first_index P xs = Some k \<Longrightarrow> k < length xs \<and> P (xs ! k)"
  by (induction xs arbitrary: k) (auto split: if_splits)

lemma map_update_same_name:
  "k < length ns \<Longrightarrow> fn_name m = fn_name (ns ! k) \<Longrightarrow> map fn_name (ns[k := m]) = map fn_name ns"
  by (simp add: map_update) (metis list_update_id nth_map)

lemma insert_parts_ok:
  "distinct_names cur \<Longrightarrow> distinct_names (insert_parts f pre parts cur)"
proof (induction f pre parts cur rule: insert_parts.induct)
  case (1 f pre cur)
  then show ?case by simp
next
  case (2 f pre name rest cur)
  show ?case
  proof (cases "first_index (\<lambda>n. fn_name n = name) cur")
    case None
    then have "name \<notin> set (map fn_name cur)" by (auto simp: first_index_None)
    moreover have "distinct_names (insert_parts f (pre @ [name]) rest [])" if "rest \<noteq> []"
      using "2.IH" None that by (simp add: distinct_names_def)
    ultimately show ?thesis
      using None "2.prems" by (auto simp: distinct_names_def nodes_ok_iff)
  next
    case (Some k)
    then have k: "k < length cur" "fn_name (cur ! k) = name" by (auto dest: first_index_Some)
    show ?thesis
    proof (cases "cur ! k")
      case (Node n p t ch c l)
      show ?thesis
      proof (cases "t = Folder \<and> ch \<noteq> None")
        case True
        then obtain cs where cs: "t = Folder" "ch = Some cs" by auto
        have "node_ok (cur ! k)" using "2.prems" k(1) by (simp add: distinct_names_def nodes_ok_iff)
        then have "distinct_names cs" using Node cs by (simp add: distinct_names_def)
        then have "distinct_names (insert_parts f (pre @ [name]) rest cs)"
          using "2.IH" Some Node cs by simp
        then show ?thesis
          using Some Node cs k "2.prems"
          by (auto simp: distinct_names_def nodes_ok_iff map_update_same_name set_update_subset_insert
              dest: set_update_subset_insert [THEN subsetD])
      next
        case False
        then show ?thesis
          using Some Node "2.IH" "2.prems" by (cases t; cases ch) auto
      qed
    qed
  qed
qed

text \<open>C25: at every level of the tree \<open>buildFileTree\<close> returns, no two nodes share a
  name, whatever the files: an existing node of the name is always reused.\<close>

theorem buildFileTree_distinct_names: "distinct_names (buildFileTree files)"
proof -
  have "distinct_names (fold (\<lambda>f root. insert_parts f [] (split_on (CHR ''/'') (path f)) root) files cur)"
    if "distinct_names cur" for cur
    using that by (induction files arbitrary: cur) (simp_all add: insert_parts_ok)
  then show ?thesis by (simp add: buildFileTree_def distinct_names_def)
qed

subsection \<open>Every file is found at its path\<close>

fun tree_lookup :: "string list \<Rightarrow> file_node list \<Rightarrow> file_node option" where
  "tree_lookup [] ns = None"
| "tree_lookup [x] ns = find (\<lambda>n. fn_name n = x) ns"
| "tree_lookup (x # y # xs) ns =
     (case find (\<lambda>n. fn_name n = x) ns of
        Some (Node nm p Folder (Some cs) c l) \<Rightarrow> tree_lookup (y # xs) cs
      | _ \<Rightarrow> None)"

definition is_folder :: "file_node option \<Rightarrow> bool" where
  "is_folder m \<longleftrightarrow> (\<exists>nm p cs c l. m = Some (Node nm p Folder (Some cs) c l))"

lemma first_index_find: "first_index P xs = Some k \<Longrightarrow> find P xs = Some (xs ! k)"
  by (induction xs arbitrary: k) (auto split: if_splits)

lemma first_index_find_None: "first_index P xs = None \<longleftrightarrow> find P xs = None"
  by (induction xs) auto

lemma find_update_first:
  assumes "first_index P xs = Some k" "P m"
  shows "find P (xs[k := m]) = Some m"
  using assms by (induction xs arbitrary: k) (auto split: if_splits nat.splits)

lemma find_update_other:
  assumes "k < length xs" "fn_name m = fn_name (xs ! k)" "x \<noteq> fn_name m"
  shows "find (\<lambda>n. fn_name n = x) (xs[k := m]) = find (\<lambda>n. fn_name n = x) xs"
  using assms by (induction xs arbitrary: k) (auto split: nat.splits)

lemma find_append_other:
  "x \<noteq> fn_name m \<Longrightarrow> find (\<lambda>n. fn_name n = x) (xs @ [m]) = find (\<lambda>n. fn_name n = x) xs"
  by (induction xs) auto

lemma find_append_new:
  "find (\<lambda>n. fn_name n = fn_name m) xs = None \<Longrightarrow> find (\<lambda>n. fn_name n = fn_name m) (xs @ [m]) = Some m"
  by (induction xs) auto

lemma tree_lookup_Cons_find:
  "find (\<lambda>n. fn_name n = x) ns = find (\<lambda>n. fn_name n = x) ms \<Longrightarrow> tree_lookup (x # q) ns = tree_lookup (x # q) ms"
  by (cases q) simp_all

lemma tree_lookup_Nil_forest [simp]: "tree_lookup q [] = None"
  by (cases "(q, [] :: file_node list)" rule: tree_lookup.cases) simp_all

definition walk_post :: "file_node list \<Rightarrow> file_node list \<Rightarrow> string list \<Rightarrow> file_node \<Rightarrow> bool" where
  "walk_post cur new p leaf \<longleftrightarrow>
     tree_lookup p new = Some leaf \<and>
     (\<forall>q. \<not> prefix q p \<longrightarrow> \<not> prefix p q \<longrightarrow> tree_lookup q new = tree_lookup q cur) \<and>
     (\<forall>r. r \<noteq> [] \<longrightarrow> strict_prefix r p \<longrightarrow> is_folder (tree_lookup r new))"

definition walk_pre :: "file_node list \<Rightarrow> string list \<Rightarrow> bool" where
  "walk_pre cur p \<longleftrightarrow>
     (\<forall>r. r \<noteq> [] \<longrightarrow> strict_prefix r p \<longrightarrow> tree_lookup r cur = None \<or> is_folder (tree_lookup r cur)) \<and>
     tree_lookup p cur = None"

definition leaf_of :: "parsed_file \<Rightarrow> string list \<Rightarrow> string list \<Rightarrow> file_node" where
  "leaf_of g pre p = Node (last p) (join ''/'' (pre @ p)) File None (Some (content g)) (Some (language g))"

lemma walk_last:
  assumes "find (\<lambda>n. fn_name n = name) cur = None"
  shows "walk_post cur (cur @ [leaf_of g pre [name]]) [name] (leaf_of g pre [name])"
proof -
  have "tree_lookup q (cur @ [leaf_of g pre [name]]) = tree_lookup q cur"
    if "\<not> prefix q [name]" "\<not> prefix [name] q" for q
  proof (cases q)
    case (Cons x q')
    with that have "x \<noteq> name" by auto
    then have "find (\<lambda>n. fn_name n = x) (cur @ [leaf_of g pre [name]]) = find (\<lambda>n. fn_name n = x) cur"
      by (intro find_append_other) (simp add: leaf_of_def)
    from tree_lookup_Cons_find [OF this] show ?thesis using Cons by simp
  qed (use that in simp)
  moreover have "\<not> (r \<noteq> [] \<and> strict_prefix r [name])" for r
    by (cases r) (auto simp: strict_prefix_def)
  ultimately show ?thesis
    using find_append_new [of "leaf_of g pre [name]" cur] assms
    by (auto simp: walk_post_def leaf_of_def)
qed

lemma lookup_through:
  "find (\<lambda>n. fn_name n = x) ns = Some (Node nm p Folder (Some cs) c l) \<Longrightarrow> q \<noteq> [] \<Longrightarrow>
   tree_lookup (x # q) ns = tree_lookup q cs"
  by (cases q) simp_all

lemma lookup_find_None:
  "find (\<lambda>n. fn_name n = x) ns = None \<Longrightarrow> tree_lookup (x # q) ns = None"
  by (cases q) simp_all

lemma leaf_of_shift: "rest \<noteq> [] \<Longrightarrow> leaf_of g (pre @ [name]) rest = leaf_of g pre (name # rest)"
  by (simp add: leaf_of_def)

lemma strict_prefix_Cons_cases:
  assumes "r \<noteq> []" "strict_prefix r (name # rest)"
  obtains "r = [name]" "rest \<noteq> []" | r' where "r = name # r'" "r' \<noteq> []" "strict_prefix r' rest"
  using assms by (cases r) (auto simp: strict_prefix_def)

lemma not_prefix_Cons_cases:
  assumes "\<not> prefix q (name # rest)" "\<not> prefix (name # rest) q"
  obtains x q' where "q = x # q'" "x \<noteq> name"
    | q' where "q = name # q'" "q' \<noteq> []" "\<not> prefix q' rest" "\<not> prefix rest q'"
  using assms by (cases q) (auto, metis Nil_prefix)

lemma walk_new_folder:
  assumes none: "find (\<lambda>n. fn_name n = name) cur = None" and "rest \<noteq> []"
    and post: "walk_post [] child rest (leaf_of g (pre @ [name]) rest)"
  shows "walk_post cur (cur @ [Node name (join ''/'' (pre @ [name])) Folder (Some child) None None])
           (name # rest) (leaf_of g pre (name # rest))"
proof -
  let ?m = "Node name (join ''/'' (pre @ [name])) Folder (Some child) None None"
  let ?new = "cur @ [?m]"
  have f: "find (\<lambda>n. fn_name n = name) ?new = Some ?m"
    using find_append_new [of ?m cur] none by simp
  have through: "tree_lookup (name # q') ?new = tree_lookup q' child" if "q' \<noteq> []" for q'
    using lookup_through [OF f that] .
  have i: "tree_lookup (name # rest) ?new = Some (leaf_of g pre (name # rest))"
    using through [OF \<open>rest \<noteq> []\<close>] post leaf_of_shift [OF \<open>rest \<noteq> []\<close>] by (simp add: walk_post_def)
  have ii: "tree_lookup q ?new = tree_lookup q cur" if "\<not> prefix q (name # rest)" "\<not> prefix (name # rest) q" for q
    using that
  proof (cases rule: not_prefix_Cons_cases)
    case (1 x q')
    then have "find (\<lambda>n. fn_name n = x) ?new = find (\<lambda>n. fn_name n = x) cur"
      by (intro find_append_other) simp
    from tree_lookup_Cons_find [OF this] show ?thesis using 1 by simp
  next
    case (2 q')
    then show ?thesis
      using through [of q'] post lookup_find_None [OF none] by (simp add: walk_post_def)
  qed
  have iii: "is_folder (tree_lookup r ?new)" if "r \<noteq> []" "strict_prefix r (name # rest)" for r
    using that
  proof (cases rule: strict_prefix_Cons_cases)
    case 1
    then show ?thesis using f by (simp add: is_folder_def)
  next
    case (2 r')
    then show ?thesis using through [of r'] post by (simp add: walk_post_def)
  qed
  from i ii iii show ?thesis by (simp add: walk_post_def)
qed

lemma walk_existing_folder:
  assumes k: "first_index (\<lambda>n. fn_name n = name) cur = Some k" and node: "cur ! k = Node nm pth Folder (Some cs) c l"
    and "rest \<noteq> []" and post: "walk_post cs child rest (leaf_of g (pre @ [name]) rest)"
  shows "walk_post cur (cur[k := Node nm pth Folder (Some child) c l]) (name # rest) (leaf_of g pre (name # rest))"
proof -
  let ?m = "Node nm pth Folder (Some child) c l"
  let ?new = "cur[k := ?m]"
  have kk: "k < length cur" "fn_name (cur ! k) = name" using first_index_Some [OF k] by auto
  then have nm: "nm = name" using node by simp
  have f: "find (\<lambda>n. fn_name n = name) ?new = Some ?m"
    using find_update_first [OF k] nm by simp
  have fc: "find (\<lambda>n. fn_name n = name) cur = Some (Node nm pth Folder (Some cs) c l)"
    using first_index_find [OF k] node by simp
  have through: "tree_lookup (name # q') ?new = tree_lookup q' child" if "q' \<noteq> []" for q'
    using lookup_through [OF f that] .
  have through_cur: "tree_lookup (name # q') cur = tree_lookup q' cs" if "q' \<noteq> []" for q'
    using lookup_through [OF fc that] .
  have i: "tree_lookup (name # rest) ?new = Some (leaf_of g pre (name # rest))"
    using through [OF \<open>rest \<noteq> []\<close>] post leaf_of_shift [OF \<open>rest \<noteq> []\<close>] by (simp add: walk_post_def)
  have ii: "tree_lookup q ?new = tree_lookup q cur" if "\<not> prefix q (name # rest)" "\<not> prefix (name # rest) q" for q
    using that
  proof (cases rule: not_prefix_Cons_cases)
    case (1 x q')
    then have "find (\<lambda>n. fn_name n = x) ?new = find (\<lambda>n. fn_name n = x) cur"
      using kk nm by (intro find_update_other) simp_all
    from tree_lookup_Cons_find [OF this] show ?thesis using 1 by simp
  next
    case (2 q')
    then show ?thesis
      using through [of q'] through_cur [of q'] post by (simp add: walk_post_def)
  qed
  have iii: "is_folder (tree_lookup r ?new)" if "r \<noteq> []" "strict_prefix r (name # rest)" for r
    using that
  proof (cases rule: strict_prefix_Cons_cases)
    case 1
    then show ?thesis using f by (simp add: is_folder_def)
  next
    case (2 r')
    then show ?thesis using through [of r'] post by (simp add: walk_post_def)
  qed
  from i ii iii show ?thesis by (simp add: walk_post_def)
qed

lemma find_first_index:
  "find P xs = Some x \<Longrightarrow> \<exists>k. first_index P xs = Some k \<and> xs ! k = x"
  by (induction xs) (auto split: if_splits)

lemma walk_pre_Nil: "walk_pre [] p"
  by (simp add: walk_pre_def)

lemma insert_parts_walk:
  "p \<noteq> [] \<Longrightarrow> walk_pre cur p \<Longrightarrow> walk_post cur (insert_parts g pre p cur) p (leaf_of g pre p)"
proof (induction p arbitrary: pre cur)
  case Nil
  then show ?case by simp
next
  case (Cons name rest)
  show ?case
  proof (cases "rest = []")
    case True
    with Cons.prems have none: "find (\<lambda>n. fn_name n = name) cur = None"
      by (simp add: walk_pre_def)
    then have "insert_parts g pre (name # rest) cur = cur @ [leaf_of g pre [name]]"
      using True by (simp add: first_index_find_None [symmetric] leaf_of_def)
    with walk_last [OF none] True show ?thesis by simp
  next
    case False
    have "[name] \<noteq> [] \<and> strict_prefix [name] (name # rest)" using False by (simp add: strict_prefix_def)
    then have pre1: "find (\<lambda>n. fn_name n = name) cur = None \<or> is_folder (find (\<lambda>n. fn_name n = name) cur)"
      using Cons.prems(2) by (auto simp: walk_pre_def)
    show ?thesis
    proof (cases "find (\<lambda>n. fn_name n = name) cur")
      case None
      then have "insert_parts g pre (name # rest) cur =
          cur @ [Node name (join ''/'' (pre @ [name])) Folder (Some (insert_parts g (pre @ [name]) rest [])) None None]"
        using False by (simp add: first_index_find_None [symmetric])
      moreover have "walk_post [] (insert_parts g (pre @ [name]) rest []) rest (leaf_of g (pre @ [name]) rest)"
        using Cons.IH [OF False walk_pre_Nil] .
      ultimately show ?thesis using walk_new_folder [OF None False] by simp
    next
      case (Some x)
      with pre1 obtain nm pth cs c l where x: "x = Node nm pth Folder (Some cs) c l"
        by (auto simp: is_folder_def)
      obtain k where k: "first_index (\<lambda>n. fn_name n = name) cur = Some k" "cur ! k = x"
        using find_first_index [OF Some] by blast
      have through: "tree_lookup (name # r) cur = tree_lookup r cs" if "r \<noteq> []" for r
        using lookup_through [of name cur nm pth cs c l r] Some x that by simp
      have "walk_pre cs rest"
      proof -
        have "tree_lookup r cs = None \<or> is_folder (tree_lookup r cs)"
          if "r \<noteq> []" "strict_prefix r rest" for r
          using Cons.prems(2) that through [OF that(1)]
          by (auto simp: walk_pre_def strict_prefix_def)
        moreover have "tree_lookup rest cs = None"
          using Cons.prems(2) through [OF False] by (simp add: walk_pre_def)
        ultimately show ?thesis by (simp add: walk_pre_def)
      qed
      from Cons.IH [OF False this] have "walk_post cs (insert_parts g (pre @ [name]) rest cs) rest (leaf_of g (pre @ [name]) rest)" .
      moreover have "insert_parts g pre (name # rest) cur =
          cur[k := Node nm pth Folder (Some (insert_parts g (pre @ [name]) rest cs)) c l]"
        using k x by simp
      ultimately show ?thesis using walk_existing_folder [OF k(1) _ False] k(2) x by simp
    qed
  qed
qed

abbreviation segs :: "parsed_file \<Rightarrow> string list" where
  "segs f \<equiv> split_on (CHR ''/'') (path f)"

definition tree_inv :: "file_node list \<Rightarrow> parsed_file list \<Rightarrow> bool" where
  "tree_inv t fs \<longleftrightarrow>
     (\<forall>f \<in> set fs. tree_lookup (segs f) t = Some (leaf_of f [] (segs f))) \<and>
     (\<forall>f \<in> set fs. \<forall>r. r \<noteq> [] \<longrightarrow> strict_prefix r (segs f) \<longrightarrow> is_folder (tree_lookup r t)) \<and>
     (\<forall>q. (\<forall>f \<in> set fs. \<not> prefix q (segs f) \<and> \<not> prefix (segs f) q) \<longrightarrow> tree_lookup q t = None)"

lemma segs_inj: "segs f = segs g \<Longrightarrow> path f = path g"
  by (metis join_split_on)

lemma tree_inv_step:
  assumes inv: "tree_inv t fs"
    and pf: "\<forall>f \<in> set fs. \<not> strict_prefix (segs f) (segs g) \<and> \<not> strict_prefix (segs g) (segs f)"
    and dp: "\<forall>f \<in> set fs. path f \<noteq> path g"
  shows "tree_inv (insert_parts g [] (segs g) t) (fs @ [g])"
proof -
  have inc: "\<not> prefix (segs g) (segs f) \<and> \<not> prefix (segs f) (segs g)" if "f \<in> set fs" for f
    using pf dp that segs_inj by (metis prefix_order.dual_order.strict_iff_order)
  have wp: "walk_pre t (segs g)"
  proof -
    have "tree_lookup r t = None \<or> is_folder (tree_lookup r t)"
      if r: "r \<noteq> []" "strict_prefix r (segs g)" for r
    proof (cases "\<exists>f \<in> set fs. prefix r (segs f) \<or> prefix (segs f) r")
      case True
      then obtain f where f: "f \<in> set fs" "prefix r (segs f) \<or> prefix (segs f) r" by blast
      show ?thesis
      proof (cases "prefix (segs f) r")
        case True
        then have "prefix (segs f) (segs g)" using r(2) by (meson prefix_order.order_trans strict_prefix_def)
        then show ?thesis using inc f(1) by blast
      next
        case False
        with f have "strict_prefix r (segs f)" by (metis prefix_order.dual_order.strict_iff_order)
        then show ?thesis using inv f(1) r(1) by (auto simp: tree_inv_def)
      qed
    next
      case False
      then show ?thesis using inv by (auto simp: tree_inv_def)
    qed
    moreover have "tree_lookup (segs g) t = None" using inv inc by (auto simp: tree_inv_def)
    ultimately show ?thesis by (simp add: walk_pre_def)
  qed
  have ne: "segs g \<noteq> []" by simp
  from insert_parts_walk [OF ne wp, of g "[]"]
  have post: "walk_post t (insert_parts g [] (segs g) t) (segs g) (leaf_of g [] (segs g))" .
  let ?t = "insert_parts g [] (segs g) t"
  have i: "tree_lookup (segs f) ?t = Some (leaf_of f [] (segs f))" if "f \<in> set (fs @ [g])" for f
    using that post inv inc by (auto simp: walk_post_def tree_inv_def)
  have ii: "is_folder (tree_lookup r ?t)" if "f \<in> set (fs @ [g])" "r \<noteq> []" "strict_prefix r (segs f)" for f r
  proof (cases "f = g")
    case True
    then show ?thesis using post that by (simp add: walk_post_def)
  next
    case False
    then have f: "f \<in> set fs" using that(1) by simp
    show ?thesis
    proof (cases "prefix r (segs g) \<or> prefix (segs g) r")
      case True
      then have "strict_prefix r (segs g)"
        using inc [OF f] that(3)
        by (metis prefix_order.dual_order.strict_iff_order prefix_order.order_trans strict_prefix_def)
      then show ?thesis using post that(2) by (simp add: walk_post_def)
    next
      case False
      then have "tree_lookup r ?t = tree_lookup r t" using post by (simp add: walk_post_def)
      then show ?thesis using inv f that(2,3) by (simp add: tree_inv_def)
    qed
  qed
  have iii: "tree_lookup q ?t = None" if "\<forall>f \<in> set (fs @ [g]). \<not> prefix q (segs f) \<and> \<not> prefix (segs f) q" for q
    using that post inv by (simp add: walk_post_def tree_inv_def)
  from i ii iii show ?thesis by (simp add: tree_inv_def)
qed

lemma tree_inv_fold:
  assumes "tree_inv t fs" "distinct (map path (fs @ todo))"
    and "\<forall>f \<in> set (fs @ todo). \<forall>g \<in> set (fs @ todo). \<not> strict_prefix (segs f) (segs g)"
  shows "tree_inv (fold (\<lambda>f root. insert_parts f [] (segs f) root) todo t) (fs @ todo)"
  using assms
proof (induction todo arbitrary: t fs)
  case (Cons g todo)
  have "tree_inv (insert_parts g [] (segs g) t) (fs @ [g])"
    using Cons.prems by (intro tree_inv_step) (auto, metis image_eqI)
  from Cons.IH [OF this] Cons.prems show ?case by simp
qed simp

text \<open>C26: when the paths are distinct and no path's segments are a strict prefix of
  another's, every file is reached by its segments as a file leaf carrying its path,
  content and language (folders are synthesised for the segments before it).\<close>

theorem buildFileTree_lookup:
  assumes "distinct (map path files)"
    and "\<forall>f \<in> set files. \<forall>g \<in> set files. \<not> strict_prefix (split_on (CHR ''/'') (path f)) (split_on (CHR ''/'') (path g))"
    and "f \<in> set files"
  shows "tree_lookup (split_on (CHR ''/'') (path f)) (buildFileTree files) =
    Some (Node (last (split_on (CHR ''/'') (path f))) (path f) File None (Some (content f)) (Some (language f)))"
proof -
  have "tree_inv [] []" by (simp add: tree_inv_def)
  from tree_inv_fold [OF this, of files] assms(1,2)
  have "tree_inv (buildFileTree files) files" by (simp add: buildFileTree_def)
  then show ?thesis using assms(3) by (simp add: tree_inv_def leaf_of_def)
qed

subsection \<open>The rendered view\<close>

definition type_rank :: "node_type \<Rightarrow> nat" where
  "type_rank t = (case t of Folder \<Rightarrow> 0 | File \<Rightarrow> 1)"

text \<open>\<open>[...nodes].sort(...)\<close>: folders first, then by \<open>localeCompare\<close> of the names, a
  collation that depends on the locale and is a parameter \<open>coll\<close> (the sort key it
  induces); \<open>Array.prototype.sort\<close> is stable, as \<open>sort_key\<close> is.\<close>

definition sort_nodes :: "(string \<Rightarrow> 'k::linorder) \<Rightarrow> file_node list \<Rightarrow> file_node list" where
  "sort_nodes coll ns = sort_key (\<lambda>n. (type_rank (fn_type n), coll (fn_name n))) ns"

lemma size_in_set: "n \<in> set ns \<Longrightarrow> size n < Suc (size_list size ns)"
  by (induction ns) auto

text \<open>The rows \<open>FileTreeView\<close> renders: each node of a level in sorted order at its
  depth, followed by the rows of its children when it is a folder that is open
  (\<open>expanded[node.path] !== false\<close>).\<close>

function view_rows :: "(string \<Rightarrow> 'k::linorder) \<Rightarrow> (string \<Rightarrow> bool option) \<Rightarrow> nat \<Rightarrow> file_node list \<Rightarrow> (string \<times> nat) list" where
  "view_rows coll expanded depth ns =
     concat (map (\<lambda>n. (fn_path n, depth) #
        (case n of
           Node nm p Folder (Some cs) c l \<Rightarrow> if expanded p \<noteq> Some False then view_rows coll expanded (Suc depth) cs else []
         | _ \<Rightarrow> [])) (sort_nodes coll ns))"
  by pat_completeness auto
termination
  by (relation "measure (\<lambda>(coll, expanded, depth, ns). size_list size ns)")
    (auto simp: sort_nodes_def dest!: size_in_set)

fun node_paths :: "file_node \<Rightarrow> string list" and nodes_paths :: "file_node list \<Rightarrow> string list" where
  "node_paths (Node nm p Folder (Some cs) c l) = p # nodes_paths cs"
| "node_paths (Node nm p File ch c l) = [p]"
| "node_paths (Node nm p Folder None c l) = [p]"
| "nodes_paths [] = []"
| "nodes_paths (n # ns) = node_paths n @ nodes_paths ns"

text \<open>A click on a folder row: \<open>setExpanded(p => ({...p, [node.path]: !isOpen}))\<close>.  The
  entries for the folders below it live in the state of the nested \<open>FileTreeView\<close>s,
  which unmount when the folder closes, so closing forgets them.\<close>

definition toggle_folder :: "(string \<Rightarrow> bool option) \<Rightarrow> file_node \<Rightarrow> string \<Rightarrow> bool option" where
  "toggle_folder expanded n =
     (if expanded (fn_path n) \<noteq> Some False
      then (\<lambda>q. if q \<in> set (tl (node_paths n)) then None else expanded q)(fn_path n := Some False)
      else expanded(fn_path n := Some True))"

text \<open>\<open>handleRenameSubmit\<close>: the rename to perform, if the trimmed name is not empty.\<close>

definition rename_submit :: "string \<Rightarrow> string option" where
  "rename_submit editName = (let t = trim editName in if t = [] then None else Some t)"

lemma mset_concat_map:
  "mset (concat (map g xs)) = sum_mset (image_mset (mset \<circ> g) (mset xs))"
  by (induction xs) auto

lemma mset_concat_map_perm:
  "mset xs = mset ys \<Longrightarrow> mset (concat (map g xs)) = mset (concat (map g ys))"
  by (simp only: mset_concat_map)

lemma mset_concat_map_cong:
  "(\<And>x. x \<in> set xs \<Longrightarrow> mset (g x) = mset (h x)) \<Longrightarrow> mset (concat (map g xs)) = mset (concat (map h xs))"
  by (induction xs) simp_all

lemma nodes_paths_concat: "nodes_paths ns = concat (map node_paths ns)"
  by (induction ns) auto

text \<open>C27: with no folder collapsed, the rendered rows list the path of every node of
  the forest exactly once (the sort at each level permutes, and nothing is lost).\<close>

theorem view_rows_all:
  "mset (map fst (view_rows coll (\<lambda>p. None) depth ns)) = mset (nodes_paths ns)"
proof (induction coll "\<lambda>p::string. None :: bool option" depth ns rule: view_rows.induct)
  case (1 coll depth ns)
  let ?h = "\<lambda>n. fn_path n # (case n of Node nm p Folder (Some cs) c l \<Rightarrow> map fst (view_rows coll (\<lambda>p. None) (Suc depth) cs) | _ \<Rightarrow> [])"
  have "map fst (view_rows coll (\<lambda>p. None) depth ns) = concat (map ?h (sort_nodes coll ns))"
    by (subst view_rows.simps) (auto simp: map_concat intro!: arg_cong[where f=concat] map_cong split: file_node.split node_type.split option.split)
  then have "mset (map fst (view_rows coll (\<lambda>p. None) depth ns)) = mset (concat (map ?h (sort_nodes coll ns)))"
    by simp
  also have "\<dots> = mset (concat (map ?h ns))"
    by (rule mset_concat_map_perm) (simp add: sort_nodes_def)
  also have "\<dots> = mset (concat (map node_paths ns))"
  proof (rule mset_concat_map_cong)
    fix n assume n: "n \<in> set ns"
    then have ns: "n \<in> set (sort_nodes coll ns)" by (simp add: sort_nodes_def)
    show "mset (?h n) = mset (node_paths n)"
    proof (cases n)
      case (Node nm p t ch c l)
      then show ?thesis using "1" [OF ns] by (cases t; cases ch) auto
    qed
  qed
  finally show ?case by (simp add: nodes_paths_concat)
qed


definition demo_files :: "parsed_file list" where
  "demo_files = [\<lparr>path = ''src/App.tsx'', content = ''x'', language = Lang ''tsx''\<rparr>,
                 \<lparr>path = ''src/lib/u.ts'', content = ''y'', language = Lang ''typescript''\<rparr>,
                 \<lparr>path = ''index.html'', content = ''z'', language = Lang ''html''\<rparr>]"

theorem buildFileTree_lookup_witness:
  "tree_lookup [''src'', ''lib'', ''u.ts''] (buildFileTree demo_files) =
     Some (Node ''u.ts'' ''src/lib/u.ts'' File None (Some ''y'') (Some (Lang ''typescript'')))"
  using buildFileTree_lookup [of demo_files "demo_files ! 1"]
  by (simp add: demo_files_def)


text \<open>The example of the contract: for \<open>["b.ts", "a/x.ts"]\<close> the builder keeps
  insertion order (\<open>b.ts\<close> before the folder \<open>a\<close>), and only the view puts the folder
  first, for every collation.\<close>

theorem tree_order_example:
  "map fn_name (buildFileTree [\<lparr>path = ''b.ts'', content = c1, language = l1\<rparr>, \<lparr>path = ''a/x.ts'', content = c2, language = l2\<rparr>]) = [''b.ts'', ''a''] \<and>
   map fst (view_rows coll expanded 0 (buildFileTree [\<lparr>path = ''b.ts'', content = c1, language = l1\<rparr>, \<lparr>path = ''a/x.ts'', content = c2, language = l2\<rparr>])) =
     (if expanded ''a'' = Some False then [''a'', ''b.ts''] else [''a'', ''a/x.ts'', ''b.ts''])"
  by (simp add: buildFileTree_def sort_nodes_def type_rank_def)

text \<open>Closing a folder and opening it again forgets the collapsed state of every
  folder below it, because the nested views unmount.\<close>

theorem toggle_reopen_resets:
  assumes "expanded (fn_path n) \<noteq> Some False"
  shows "toggle_folder (toggle_folder expanded n) n =
    (\<lambda>q. if q = fn_path n then Some True else if q \<in> set (tl (node_paths n)) then None else expanded q)"
  using assms by (auto simp: toggle_folder_def)

theorem toggle_reopen_resets_witness:
  "toggle_folder (toggle_folder ((\<lambda>q. None)(''a/b'' := Some False))
      (Node ''a'' ''a'' Folder (Some [Node ''b'' ''a/b'' Folder (Some []) None None]) None None))
      (Node ''a'' ''a'' Folder (Some [Node ''b'' ''a/b'' Folder (Some []) None None]) None None) ''a/b'' = None"
  using toggle_reopen_resets [of "(\<lambda>q. None)(''a/b'' := Some False)"
      "Node ''a'' ''a'' Folder (Some [Node ''b'' ''a/b'' Folder (Some []) None None]) None None"]
  by simp

end
