(* ===== verification/HomeState.thy ===== *)
theory HomeState
  imports Route FileTree
begin

text \<open>
  The state of the \<open>Home\<close> page of \<open>src/src/app/page.tsx\<close> (lines 606--620) and the
  operations on it that are not part of a chat turn: the starter files
  \<open>DEFAULT_FILES\<close> (571--604), the project bookkeeping \<open>createNewProject\<close>,
  \<open>switchProject\<close>, \<open>updateCurrentProject\<close> and \<open>deleteProject\<close> (664--726), the
  persistence to \<open>localStorage\<close> (635--662), and the React state updates around the
  ArtifactStore operations of \<open>Store\<close> (776--809).  A React state variable is a field
  of the record \<open>home\<close>; a handler is a function from state to state, applied to the
  state of the render the handler was created in.  The environment supplies the
  random project ids and the dates.
\<close>

datatype role = User | Assistant

text \<open>\<open>Message\<close> (lines 51--56); the optional members are options, absent meaning
  \<open>undefined\<close>.\<close>

record message =
  role :: role
  msg_content :: string
  image :: "string option"
  artifacts :: "artifact_info list option"

text \<open>\<open>Project\<close> (lines 80--86).\<close>

record project =
  pid :: string
  pname :: string
  files :: "parsed_file list"
  pmessages :: "message list"
  createdAt :: string

datatype panel = CodePanel | PreviewPanel

text \<open>The phase of a running \<open>sendMessage\<close>: waiting for \<open>fetch\<close>, or in the read loop
  with its local \<open>buffer\<close> and \<open>assistantContent\<close> (with the artifacts last shown).\<close>

datatype phase = Fetching | Reading string client_state

text \<open>A running \<open>sendMessage\<close>: what its closure captured when it started
  (\<open>allFiles\<close>, \<open>newMessages\<close>, the \<open>currentProjectId\<close> of \<open>updateCurrentProject\<close>,
  the model), and its phase.\<close>

record turn =
  t_files :: "parsed_file list"
  t_messages :: "message list"
  t_pid :: "string option"
  t_model :: string
  t_phase :: phase

text \<open>The state of \<open>Home\<close> (lines 607--620) that the handlers read and write, the
  \<open>localStorage\<close> entry \<open>orchids_projects\<close>, and the running turn, if any.\<close>

record home =
  projects :: "project list"
  currentProjectId :: "string option"
  messages :: "message list"
  input :: string
  isStreaming :: bool
  selectedModel :: string
  allFiles :: "parsed_file list"
  fileHistory :: "parsed_file list list"
  selectedFile :: "file_node option"
  rightPanel :: panel
  imageAttachment :: "string option"
  stored :: "string option"
  running :: "turn option"

subsection \<open>The starter files\<close>

text \<open>\<open>DEFAULT_FILES\<close>; the content of \<open>package.json\<close> is the text
  \<open>JSON.stringify(..., null, 2)\<close> produces for the literal.\<close>

definition DEFAULT_FILES :: "parsed_file list" where
  "DEFAULT_FILES =
    [\<lparr>path = ''package.json'', content = join [LF]
       [''{'',
        ''  \"name\": \"orchids-project\",'',
        ''  \"version\": \"1.0.0\",'',
        ''  \"dependencies\": {'',
        ''    \"react\": \"^18.0.0\",'',
        ''    \"react-dom\": \"^18.0.0\",'',
        ''    \"lucide-react\": \"latest\",'',
        ''    \"framer-motion\": \"latest\"'',
        ''  }'',
        ''}''], language = Lang ''json''\<rparr>,
     \<lparr>path = ''index.html'', content = join [LF]
       [''<!DOCTYPE html>'',
        ''<html>'',
        ''  <head>'',
        ''    <meta charset=\"UTF-8\" />'',
        ''    <meta name=\"viewport\" content=\"width=device-width, initial-scale=1.0\" />'',
        ''    <script src=\"https://cdn.tailwindcss.com\"></script>'',
        ''    <link href=\"https://fonts.googleapis.com/css2?family=Inter:wght@400;500;600;700&display=swap\" rel=\"stylesheet\">'',
        ''  </head>'',
        ''  <body>'',
        ''    <div id=\"root\"></div>'',
        ''  </body>'',
        ''</html>''], language = Lang ''html''\<rparr>,
     \<lparr>path = ''App.tsx'', content = join [LF]
       [''import React from 'react';'',
        [],
        ''export default function App() {'',
        ''  return ('',
        ''    <div className=\"flex items-center justify-center min-h-screen bg-black text-white\">'',
        ''      <h1 className=\"text-4xl font-bold\">Hello Orchids</h1>'',
        ''    </div>'',
        ''  );'',
        ''}''], language = Lang ''tsx''\<rparr>,
     \<lparr>path = ''.gitignore'', content = join [LF] [''node_modules'', ''.next'', ''.env'', ''bun.lock''],
       language = Lang ''text''\<rparr>]"

subsection \<open>Projects\<close>

text \<open>\<open>createNewProject(name)\<close> with the random id and the date it draws.  It selects
  \<open>App.tsx\<close> of the starter files; it does not touch the undo history.\<close>

definition createNewProject :: "string \<Rightarrow> string \<Rightarrow> string \<Rightarrow> home \<Rightarrow> home" where
  "createNewProject name i date s =
     s\<lparr>projects := \<lparr>pid = i, pname = name, files = DEFAULT_FILES, pmessages = [], createdAt = date\<rparr> # projects s,
       currentProjectId := Some i, allFiles := DEFAULT_FILES, messages := [], rightPanel := CodePanel,
       selectedFile := Some (Node ''App.tsx'' ''App.tsx'' File None
          (map_option content (find (\<lambda>f. path f = ''App.tsx'') DEFAULT_FILES)) (Some (Lang ''tsx'')))\<rparr>"

text \<open>\<open>switchProject(id)\<close>: an unknown id changes nothing; the undo history and the
  selected file are kept.\<close>

definition switchProject :: "string \<Rightarrow> home \<Rightarrow> home" where
  "switchProject i s =
     (case find (\<lambda>p. pid p = i) (projects s) of
        Some p \<Rightarrow> s\<lparr>currentProjectId := Some (pid p), allFiles := files p, messages := pmessages p\<rparr>
      | None \<Rightarrow> s)"

text \<open>The name \<open>msgs[0]?.content.slice(0, 20) + "..." || "New Project"\<close>: the
  concatenation is never empty, so the fallback is never taken, and with no message
  \<open>undefined + "..."\<close> is the text \<open>undefined...\<close>.\<close>

definition project_name :: "message list \<Rightarrow> string" where
  "project_name msgs = (case msgs of [] \<Rightarrow> ''undefined'' | m # _ \<Rightarrow> take 20 (msg_content m)) @ ''...''"

text \<open>\<open>updateCurrentProject(files, msgs)\<close> as created for the render in which
  \<open>currentProjectId\<close> was \<open>cur\<close>; with no project it creates one with the id and date
  it draws.\<close>

definition updateCurrentProject ::
  "string option \<Rightarrow> string \<Rightarrow> string \<Rightarrow> parsed_file list \<Rightarrow> message list \<Rightarrow> home \<Rightarrow> home" where
  "updateCurrentProject cur i date fs msgs s =
     (case cur of
        None \<Rightarrow> s\<lparr>projects := \<lparr>pid = i, pname = project_name msgs, files = fs, pmessages = msgs, createdAt = date\<rparr> # projects s,
                   currentProjectId := Some i\<rparr>
      | Some c \<Rightarrow> s\<lparr>projects := map (\<lambda>p. if pid p = c then p\<lparr>files := fs, pmessages := msgs\<rparr> else p) (projects s)\<rparr>)"

text \<open>\<open>deleteProject(id)\<close>: the current project's files and messages are cleared,
  the undo history and the selected file are kept.\<close>

definition deleteProject :: "string \<Rightarrow> home \<Rightarrow> home" where
  "deleteProject i s =
     (let s' = s\<lparr>projects := filter (\<lambda>p. pid p \<noteq> i) (projects s)\<rparr> in
      if currentProjectId s = Some i then s'\<lparr>currentProjectId := None, allFiles := [], messages := []\<rparr> else s')"

subsection \<open>File operations\<close>

text \<open>The handlers of the file tree and of the undo button: the ArtifactStore
  operations of \<open>Store\<close> on \<open>allFiles\<close> and \<open>fileHistory\<close>, and, for \<open>deleteFile\<close>,
  the selection cleared when its path starts with the deleted one.\<close>

definition home_deleteFile :: "string \<Rightarrow> home \<Rightarrow> home" where
  "home_deleteFile p s =
     (let (fs, h) = deleteFile p (allFiles s) (fileHistory s) in
      s\<lparr>allFiles := fs, fileHistory := h,
        selectedFile := (case selectedFile s of Some n \<Rightarrow> if prefix p (fn_path n) then None else Some n | None \<Rightarrow> None)\<rparr>)"

definition home_renameFile :: "string \<Rightarrow> string \<Rightarrow> home \<Rightarrow> home" where
  "home_renameFile p newName s =
     (let (fs, h) = renameFile p newName (allFiles s) (fileHistory s) in s\<lparr>allFiles := fs, fileHistory := h\<rparr>)"

definition home_undo :: "home \<Rightarrow> home" where
  "home_undo s = (let (fs, h) = undoChanges (allFiles s) (fileHistory s) in s\<lparr>allFiles := fs, fileHistory := h\<rparr>)"

subsection \<open>Persistence\<close>

text \<open>\<open>JSON.stringify\<close> of the state's objects, members in the order the object
  literals of the code create them; a member whose value is \<open>undefined\<close> or a
  function is left out.\<close>

definition lang_json :: "lang_value \<Rightarrow> (string \<times> jval) list" where
  "lang_json l = (case l of
      Lang s \<Rightarrow> [(''language'', JStr s)]
    | Inherited k \<Rightarrow> if k = ''__proto__'' then [(''language'', JObj [])] else []
    | EmptyObject \<Rightarrow> [(''language'', JObj [])]
    | Undefined \<Rightarrow> [])"

definition file_json :: "parsed_file \<Rightarrow> jval" where
  "file_json f = JObj ([(''path'', JStr (path f)), (''content'', JStr (content f))] @ lang_json (language f))"

definition artifact_json :: "artifact_info \<Rightarrow> jval" where
  "artifact_json a = JObj [(''path'', JStr (art_path a)), (''linesAdded'', JNum (nat_str (linesAdded a))),
     (''isNew'', JBool (isNew a)), (''content'', JStr (art_content a))]"

definition message_json :: "message \<Rightarrow> jval" where
  "message_json m = JObj ([(''role'', JStr (case role m of User \<Rightarrow> ''user'' | Assistant \<Rightarrow> ''assistant'')),
       (''content'', JStr (msg_content m))] @
     (case image m of Some u \<Rightarrow> [(''image'', JStr u)] | None \<Rightarrow> []) @
     (case artifacts m of Some as \<Rightarrow> [(''artifacts'', JArr (map artifact_json as))] | None \<Rightarrow> []))"

definition project_json :: "project \<Rightarrow> jval" where
  "project_json p = JObj [(''id'', JStr (pid p)), (''name'', JStr (pname p)), (''files'', JArr (map file_json (files p))),
     (''messages'', JArr (map message_json (pmessages p))), (''createdAt'', JStr (createdAt p))]"

text \<open>The effect on \<open>[projects]\<close> (lines 658--662): the list is written back after
  every change, unless it is empty.\<close>

definition projects_text :: "project list \<Rightarrow> string" where
  "projects_text ps = json_stringify (JArr (map project_json ps))"

definition persist :: "home \<Rightarrow> home" where
  "persist s = (if projects s \<noteq> [] then s\<lparr>stored := Some (projects_text (projects s))\<rparr> else s)"

text \<open>Reading the stored text back: \<open>JSON.parse(saved)\<close> is used as \<open>Project[]\<close>.  The
  decoders read the members the types declare; a value of another shape is outside
  what the typed code handles, and decodes to \<open>None\<close>.\<close>

definition str_of :: "jval option \<Rightarrow> string option" where
  "str_of v = (case v of Some (JStr s) \<Rightarrow> Some s | _ \<Rightarrow> None)"

definition digits_nat :: "string \<Rightarrow> nat" where
  "digits_nat s = foldl (\<lambda>n c. 10 * n + (of_char c - 48)) 0 s"

definition nat_of :: "jval option \<Rightarrow> nat option" where
  "nat_of v = (case v of Some (JNum s) \<Rightarrow> if s \<noteq> [] \<and> list_all is_digit s then Some (digits_nat s) else None | _ \<Rightarrow> None)"

definition lang_of_json :: "jval \<Rightarrow> lang_value option" where
  "lang_of_json v = (case get_prop ''language'' v of
      None \<Rightarrow> Some Undefined | Some (JStr s) \<Rightarrow> Some (Lang s) | Some (JObj []) \<Rightarrow> Some EmptyObject | _ \<Rightarrow> None)"

definition file_of_json :: "jval \<Rightarrow> parsed_file option" where
  "file_of_json v = do {
     p \<leftarrow> str_of (get_prop ''path'' v); c \<leftarrow> str_of (get_prop ''content'' v); l \<leftarrow> lang_of_json v;
     Some \<lparr>path = p, content = c, language = l\<rparr> }"

definition artifact_of_json :: "jval \<Rightarrow> artifact_info option" where
  "artifact_of_json v = do {
     p \<leftarrow> str_of (get_prop ''path'' v); n \<leftarrow> nat_of (get_prop ''linesAdded'' v);
     b \<leftarrow> (case get_prop ''isNew'' v of Some (JBool b) \<Rightarrow> Some b | _ \<Rightarrow> None);
     c \<leftarrow> str_of (get_prop ''content'' v);
     Some \<lparr>art_path = p, linesAdded = n, isNew = b, art_content = c\<rparr> }"

definition arr_of :: "(jval \<Rightarrow> 'a option) \<Rightarrow> jval option \<Rightarrow> 'a list option" where
  "arr_of f v = (case v of Some (JArr vs) \<Rightarrow> those (map f vs) | _ \<Rightarrow> None)"

definition message_of_json :: "jval \<Rightarrow> message option" where
  "message_of_json v = do {
     r \<leftarrow> (case str_of (get_prop ''role'' v) of Some ''user'' \<Rightarrow> Some User | Some ''assistant'' \<Rightarrow> Some Assistant | _ \<Rightarrow> None);
     c \<leftarrow> str_of (get_prop ''content'' v);
     i \<leftarrow> (case get_prop ''image'' v of None \<Rightarrow> Some None | Some (JStr u) \<Rightarrow> Some (Some u) | _ \<Rightarrow> None);
     a \<leftarrow> (case get_prop ''artifacts'' v of None \<Rightarrow> Some None | w \<Rightarrow> map_option Some (arr_of artifact_of_json w));
     Some \<lparr>role = r, msg_content = c, image = i, artifacts = a\<rparr> }"

definition project_of_json :: "jval \<Rightarrow> project option" where
  "project_of_json v = do {
     i \<leftarrow> str_of (get_prop ''id'' v); n \<leftarrow> str_of (get_prop ''name'' v);
     fs \<leftarrow> arr_of file_of_json (get_prop ''files'' v); ms \<leftarrow> arr_of message_of_json (get_prop ''messages'' v);
     d \<leftarrow> str_of (get_prop ''createdAt'' v);
     Some \<lparr>pid = i, pname = n, files = fs, pmessages = ms, createdAt = d\<rparr> }"

text \<open>The first render: the initial values of the \<open>useState\<close> calls (lines 622--634),
  the model \<open>MODELS[0].id\<close>, and what \<open>localStorage\<close> holds.\<close>

definition home_init :: "string option \<Rightarrow> home" where
  "home_init st =
     \<lparr>projects = [], currentProjectId = None, messages = [], input = [], isStreaming = False,
      selectedModel = ''google/gemini-2.0-flash-001'', allFiles = [], fileHistory = [], selectedFile = None,
      rightPanel = CodePanel, imageAttachment = None, stored = st, running = None\<rparr>"

text \<open>The mount effect (lines 637--654): a stored text that is not JSON is caught and
  ignored; a list of projects is loaded and its first project opened.\<close>

definition home_mount :: "home \<Rightarrow> home option" where
  "home_mount s =
     (case stored s of
        None \<Rightarrow> Some s
      | Some txt \<Rightarrow>
          if txt = [] then Some s
          else (case JSON_parse txt of
                  None \<Rightarrow> Some s
                | Some v \<Rightarrow>
                    map_option (\<lambda>ps. if ps \<noteq> [] then s\<lparr>projects := ps, currentProjectId := Some (pid (hd ps)),
                                                        allFiles := files (hd ps), messages := pmessages (hd ps)\<rparr>
                                      else s\<lparr>projects := ps\<rparr>)
                      (arr_of project_of_json (Some v))))"

end
