(* ===== verification/Turn.thy ===== *)
theory Turn
  imports HomeState
begin

text \<open>
  A chat turn of \<open>Home\<close>: \<open>sendMessage\<close> (\<open>page.tsx\<close> lines 836--956) is an
  \<open>async\<close> function, so it runs in pieces between which React renders and the user
  acts.  Each piece is one event of \<open>home_step\<close>: the call itself (\<open>Send\<close>), the
  settling of \<open>fetch\<close> (\<open>Fetched\<close>), each \<open>reader.read()\<close> that yields a chunk
  (\<open>Chunk\<close>), ends (\<open>StreamEnd\<close>) or rejects (\<open>ReadFailed\<close>).  The pieces run on
  the values the closure captured when it was called (\<open>turn\<close> of \<open>HomeState\<close>)
  and on the state through functional updates \<open>setX(prev => ...)\<close>; all other
  events are the user's handlers.  After every event the \<open>[projects]\<close> effect runs
  (\<open>persist\<close>).
\<close>

definition role_str :: "role \<Rightarrow> string" where
  "role_str r = (case r of User \<Rightarrow> ''user'' | Assistant \<Rightarrow> ''assistant'')"

text \<open>Truthiness of \<open>imageAttachment\<close>, a string or \<open>null\<close>.\<close>

definition has_image :: "string option \<Rightarrow> bool" where
  "has_image a = (case a of Some u \<Rightarrow> u \<noteq> [] | None \<Rightarrow> False)"

text \<open>\<open>apiMessages\<close> (lines 850--861) and the request body of the \<open>fetch\<close>.\<close>

definition api_message :: "message \<Rightarrow> jval" where
  "api_message m =
     (if has_image (image m) then
        JObj [(''role'', JStr (role_str (role m))),
              (''content'', JArr [JObj [(''type'', JStr ''text''), (''text'', JStr (msg_content m))],
                                  JObj [(''type'', JStr ''image_url''), (''image_url'', JObj [(''url'', JStr (the (image m)))])]])]
      else JObj [(''role'', JStr (role_str (role m))), (''content'', JStr (msg_content m))])"

definition api_body :: "message list \<Rightarrow> string \<Rightarrow> string" where
  "api_body msgs model = json_stringify (JObj [(''messages'', JArr (map api_message msgs)), (''model'', JStr model)])"

subsection \<open>The pieces of \<open>sendMessage\<close>\<close>

text \<open>The call (lines 837--848): the guard, the user message appended, the input
  cleared, and the values the rest of the turn will use captured.\<close>

definition sendMessage :: "home \<Rightarrow> home" where
  "sendMessage s =
     (if (trim (input s) = [] \<and> \<not> has_image (imageAttachment s)) \<or> isStreaming s then s
      else
        (let userMsg = \<lparr>role = User, msg_content = trim (input s),
                        image = (if has_image (imageAttachment s) then imageAttachment s else None), artifacts = None\<rparr>;
             newMessages = messages s @ [userMsg] in
         s\<lparr>messages := newMessages, input := [], imageAttachment := None, isStreaming := True,
           running := Some \<lparr>t_files = allFiles s, t_messages = newMessages, t_pid = currentProjectId s,
                            t_model = selectedModel s, t_phase = Fetching\<rparr>\<rparr>))"

text \<open>\<open>finally { setIsStreaming(false) }\<close>, and the turn is over.\<close>

definition turn_finally :: "home \<Rightarrow> home" where
  "turn_finally s = s\<lparr>isStreaming := False, running := None\<rparr>"

definition ERROR_MESSAGE :: message where
  "ERROR_MESSAGE = \<lparr>role = Assistant, msg_content = ''Error: Failed to get response.'', image = None, artifacts = None\<rparr>"

text \<open>\<open>catch (err) { ... setMessages(prev => [...prev, error]) }\<close> then \<open>finally\<close>.\<close>

definition turn_failed :: "home \<Rightarrow> home" where
  "turn_failed s = turn_finally (s\<lparr>messages := messages s @ [ERROR_MESSAGE]\<rparr>)"

datatype fetch_outcome = FetchRejected | Response nat bool

text \<open>How \<open>fetch\<close> settled (lines 863--876): rejected, or a response with its status
  and whether it has a body.  A status outside 200--299 throws \<open>API error\<close>; no body
  returns through \<open>finally\<close> alone; otherwise the empty assistant message is
  appended and the read loop starts.\<close>

definition turn_fetched :: "fetch_outcome \<Rightarrow> turn \<Rightarrow> home \<Rightarrow> home" where
  "turn_fetched r t s =
     (case r of
        FetchRejected \<Rightarrow> turn_failed s
      | Response st b \<Rightarrow>
          if \<not> (200 \<le> st \<and> st \<le> 299) then turn_failed s
          else if \<not> b then turn_finally s
          else s\<lparr>messages := messages s @ [\<lparr>role = Assistant, msg_content = [], image = None, artifacts = Some []\<rparr>],
                 running := Some (t\<lparr>t_phase := Reading [] client_init\<rparr>)\<rparr>)"

text \<open>One line of the read loop on the loop's variables and the \<open>messages\<close> state:
  \<open>client_line\<close> of \<open>Stream\<close>, and for a record with truthy \<open>content\<close> the update
  \<open>updated[updated.length - 1] = ...\<close>, which on an empty list sets no element.\<close>

definition turn_line :: "parsed_file list \<Rightarrow> client_state \<times> message list \<Rightarrow> string \<Rightarrow> client_state \<times> message list" where
  "turn_line fs cm line =
     (case sse_payload line \<bind> JSON_parse \<bind> get_prop ''content'' of
        Some v \<Rightarrow>
          if truthy v then
            (let c = client_line fs (fst cm) line in
             (c, (snd cm)[length (snd cm) - 1 := \<lparr>role = Assistant, msg_content = assistantContent c, image = None,
                                                artifacts = Some (live c)\<rparr>]))
          else cm
      | None \<Rightarrow> cm)"

definition turn_chunk :: "string \<Rightarrow> turn \<Rightarrow> string \<Rightarrow> client_state \<Rightarrow> home \<Rightarrow> home" where
  "turn_chunk chunk t buf c s =
     (let (buf', (c', msgs)) = feed_lines (turn_line (t_files t)) (buf, (c, messages s)) chunk in
      s\<lparr>messages := msgs, running := Some (t\<lparr>t_phase := Reading buf' c'\<rparr>)\<rparr>)"

text \<open>The name \<open>first.path.split("/").pop() || first.path\<close> and the node selected
  after a merge.\<close>

definition file_node_of :: "parsed_file \<Rightarrow> file_node" where
  "file_node_of f =
     (let n = last (split_on CHR ''/'' (path f)) in
      Node (if n = [] then path f else n) (path f) File None (Some (content f)) (Some (language f)))"

text \<open>The final processing after \<open>done\<close> (lines 926--947), with the id and date
  \<open>updateCurrentProject\<close> draws if it creates a project.  It uses the captured
  \<open>allFiles\<close> and \<open>newMessages\<close>, not the state.\<close>

definition turn_end :: "string \<Rightarrow> string \<Rightarrow> turn \<Rightarrow> client_state \<Rightarrow> home \<Rightarrow> home" where
  "turn_end i date t c s =
     (let parsed = parseFilesFromResponse (assistantContent c);
          finalMessages = t_messages t @ [\<lparr>role = Assistant, msg_content = assistantContent c, image = None, artifacts = Some []\<rparr>];
          finalFiles = (if parsed \<noteq> [] then merge_files (t_files t) parsed else t_files t);
          s1 = (if parsed \<noteq> [] then
                  s\<lparr>fileHistory := saveToHistory (t_files t) (fileHistory s), allFiles := finalFiles,
                    selectedFile := Some (file_node_of (hd parsed))\<rparr>
                else s) in
      turn_finally (updateCurrentProject (t_pid t) i date finalFiles finalMessages s1))"

subsection \<open>Events\<close>

text \<open>\<open>handleKeyDown\<close> (lines 958--963): Enter without Shift sends; any other key
  is the textarea's own input.\<close>

definition handleKeyDown :: "string \<Rightarrow> bool \<Rightarrow> home \<Rightarrow> home" where
  "handleKeyDown key shift s = (if key = ''Enter'' \<and> \<not> shift then sendMessage s else s)"

datatype event =
    SetInput string | AttachImage string | ClearImage | SelectModel string | SetPanel panel
  | SelectFile file_node | Send | KeyDown string bool | Fetched fetch_outcome | Chunk string | ReadFailed
  | StreamEnd string string | NewProject string string string | SwitchProject string
  | DeleteProject string | DeleteFile string | RenameFile string string | Undo

text \<open>An event of the running turn in another phase, or with no turn, does not
  occur; it changes nothing.\<close>

fun home_event :: "event \<Rightarrow> home \<Rightarrow> home" where
  "home_event (SetInput x) s = s\<lparr>input := x\<rparr>"
| "home_event (AttachImage u) s = s\<lparr>imageAttachment := Some u\<rparr>"
| "home_event ClearImage s = s\<lparr>imageAttachment := None\<rparr>"
| "home_event (SelectModel m) s = s\<lparr>selectedModel := m\<rparr>"
| "home_event (SetPanel p) s = s\<lparr>rightPanel := p\<rparr>"
| "home_event (SelectFile n) s = s\<lparr>selectedFile := Some n\<rparr>"
| "home_event Send s = sendMessage s"
| "home_event (KeyDown k sh) s = handleKeyDown k sh s"
| "home_event (Fetched r) s =
     (case running s of Some t \<Rightarrow> (case t_phase t of Fetching \<Rightarrow> turn_fetched r t s | _ \<Rightarrow> s) | None \<Rightarrow> s)"
| "home_event (Chunk x) s =
     (case running s of Some t \<Rightarrow> (case t_phase t of Reading buf c \<Rightarrow> turn_chunk x t buf c s | _ \<Rightarrow> s) | None \<Rightarrow> s)"
| "home_event ReadFailed s =
     (case running s of Some t \<Rightarrow> (case t_phase t of Reading buf c \<Rightarrow> turn_failed s | _ \<Rightarrow> s) | None \<Rightarrow> s)"
| "home_event (StreamEnd i d) s =
     (case running s of Some t \<Rightarrow> (case t_phase t of Reading buf c \<Rightarrow> turn_end i d t c s | _ \<Rightarrow> s) | None \<Rightarrow> s)"
| "home_event (NewProject name i d) s = createNewProject name i d s"
| "home_event (SwitchProject i) s = switchProject i s"
| "home_event (DeleteProject i) s = deleteProject i s"
| "home_event (DeleteFile p) s = home_deleteFile p s"
| "home_event (RenameFile p n) s = home_renameFile p n s"
| "home_event Undo s = home_undo s"

definition home_step :: "event \<Rightarrow> home \<Rightarrow> home" where
  "home_step e s = persist (home_event e s)"

definition home_run :: "event list \<Rightarrow> home \<Rightarrow> home" where
  "home_run es s = fold home_step es s"

subsection \<open>Reachable states\<close>

text \<open>The states of the page: after the mount (with whatever \<open>localStorage\<close> held,
  and the \<open>[projects]\<close> effect run) and after any sequence of events.\<close>

inductive reachable :: "home \<Rightarrow> bool" where
  mount: "home_mount (home_init st) = Some s \<Longrightarrow> reachable (persist s)"
| step: "reachable s \<Longrightarrow> reachable (home_step e s)"

definition home_inv :: "home \<Rightarrow> bool" where
  "home_inv s \<longleftrightarrow> (isStreaming s \<longleftrightarrow> running s \<noteq> None) \<and>
     (projects s \<noteq> [] \<longrightarrow> stored s = Some (projects_text (projects s)))"

subsection \<open>Invariant, safety and liveness\<close>

lemmas turn_defs = turn_finally_def turn_failed_def turn_fetched_def turn_chunk_def turn_end_def
lemmas handler_defs = createNewProject_def switchProject_def updateCurrentProject_def deleteProject_def
  home_deleteFile_def home_renameFile_def home_undo_def

lemma persist_fields [simp]:
  "isStreaming (persist s) = isStreaming s" "running (persist s) = running s" "projects (persist s) = projects s"
  "allFiles (persist s) = allFiles s" "fileHistory (persist s) = fileHistory s" "messages (persist s) = messages s"
  "currentProjectId (persist s) = currentProjectId s" "input (persist s) = input s"
  "imageAttachment (persist s) = imageAttachment s" "selectedFile (persist s) = selectedFile s"
  by (simp_all add: persist_def)

lemma persist_stored: "projects s \<noteq> [] \<Longrightarrow> stored (persist s) = Some (projects_text (projects s))"
  by (simp add: persist_def)

lemma persist_id: "home_inv s \<Longrightarrow> persist s = s"
  by (simp add: persist_def home_inv_def)

lemma turn_chunk_running: "running (turn_chunk x t buf c s) \<noteq> None \<and> isStreaming (turn_chunk x t buf c s) = isStreaming s"
  by (simp add: turn_chunk_def split: prod.split)

lemma turn_end_done: "running (turn_end i d t c s) = None \<and> \<not> isStreaming (turn_end i d t c s)"
  by (simp add: turn_end_def turn_finally_def Let_def updateCurrentProject_def split: option.split)

lemma turn_fetched_streaming:
  "isStreaming s \<Longrightarrow> (isStreaming (turn_fetched r t s) \<longleftrightarrow> running (turn_fetched r t s) \<noteq> None)"
  by (simp add: turn_fetched_def turn_failed_def turn_finally_def split: fetch_outcome.split)

lemma home_event_streaming:
  assumes "isStreaming s \<longleftrightarrow> running s \<noteq> None"
  shows "isStreaming (home_event e s) \<longleftrightarrow> running (home_event e s) \<noteq> None"
proof (cases e)
  case (Fetched r)
  then show ?thesis using assms turn_fetched_streaming [of s r]
    by (auto split: option.split phase.split)
next
  case (Chunk x)
  then show ?thesis using assms turn_chunk_running by (auto split: option.split phase.split)
next
  case ReadFailed
  then show ?thesis using assms by (auto simp: turn_failed_def turn_finally_def split: option.split phase.split)
next
  case (StreamEnd i d)
  then show ?thesis using assms turn_end_done by (auto split: option.split phase.split)
next
  case Send
  then show ?thesis using assms by (simp add: sendMessage_def Let_def)
qed (use assms in \<open>simp_all add: handler_defs handleKeyDown_def sendMessage_def Let_def split: option.split prod.split\<close>)

lemma home_step_inv: "home_inv s \<Longrightarrow> home_inv (home_step e s)"
  using home_event_streaming [of s e] persist_stored [of "home_event e s"]
  by (simp add: home_inv_def home_step_def)

lemma reachable_home_inv: "reachable s \<Longrightarrow> home_inv s"
proof (induction rule: reachable.induct)
  case (mount st s)
  then have "\<not> isStreaming s \<and> running s = None"
    by (auto simp: home_mount_def home_init_def split: option.splits if_splits)
  then show ?case using persist_stored [of s] by (simp add: home_inv_def)
next
  case (step s e)
  from step.IH show ?case by (rule home_step_inv)
qed


text \<open>C31: in every reachable state \<open>isStreaming\<close> holds exactly while a turn is running,
  and \<open>localStorage\<close> holds the text of the projects whenever there are any.\<close>

theorem home_inv_reachable: "reachable s \<Longrightarrow> home_inv s"
  by (rule reachable_home_inv)

text \<open>C32: while a turn is running, a second \<open>sendMessage\<close> returns at its guard and changes
  nothing: at most one stream is active.\<close>

theorem send_ignored_while_streaming:
  assumes "reachable s" "isStreaming s"
  shows "home_step Send s = s"
  using reachable_home_inv [OF assms(1)] assms(2) persist_id
  by (simp add: home_step_def sendMessage_def)

lemma send_accepted:
  assumes "\<not> isStreaming s" "trim x \<noteq> []"
  shows "isStreaming (home_run [SetInput x, Send] s)"
  using assms by (simp add: home_run_def home_step_def sendMessage_def Let_def)

lemma turn_ends_in_one:
  assumes "home_inv s"
  shows "\<exists>es. length es \<le> 1 \<and> \<not> isStreaming (home_run es s)"
proof (cases "running s")
  case None
  then show ?thesis using assms by (intro exI [of _ "[]"]) (simp add: home_inv_def home_run_def)
next
  case (Some t)
  show ?thesis
  proof (cases "t_phase t")
    case Fetching
    then show ?thesis using Some
      by (intro exI [of _ "[Fetched FetchRejected]"])
        (simp add: home_run_def home_step_def turn_fetched_def turn_failed_def turn_finally_def)
  next
    case (Reading buf c)
    then show ?thesis using Some
      by (intro exI [of _ "[ReadFailed]"]) (simp add: home_run_def home_step_def turn_failed_def turn_finally_def)
  qed
qed

text \<open>C33: no state blocks the chat: from every reachable state, within at most one event
  (the fetch failing or a read failing) the turn is over, and then any message that is
  not blank is accepted and starts a new turn.\<close>

theorem turn_always_ends:
  assumes "reachable s"
  shows "\<exists>es. length es \<le> 1 \<and> (\<forall>x. trim x \<noteq> [] \<longrightarrow> isStreaming (home_run (es @ [SetInput x, Send]) s))"
proof -
  obtain es where "length es \<le> 1" "\<not> isStreaming (home_run es s)"
    using turn_ends_in_one [OF reachable_home_inv [OF assms]] by blast
  then show ?thesis using send_accepted by (intro exI [of _ es]) (simp add: home_run_def)
qed

text \<open>C34: when a turn ends with file blocks, the merge is applied to the files the
  closure captured at the send, not to the current \<open>allFiles\<close>: whatever the user
  deleted, renamed or undid while the answer streamed is undone; the history gets
  exactly one entry.\<close>

theorem stream_end_merges_captured:
  assumes "running s = Some t" "t_phase t = Reading buf c"
    and "parseFilesFromResponse (assistantContent c) \<noteq> []"
  shows "allFiles (home_step (StreamEnd i d) s) = merge_files (t_files t) (parseFilesFromResponse (assistantContent c)) \<and>
    fileHistory (home_step (StreamEnd i d) s) = saveToHistory (t_files t) (fileHistory s)"
  using assms
  by (simp add: home_step_def turn_end_def turn_finally_def Let_def updateCurrentProject_def split: option.split)

text \<open>C36: a failed \<open>fetch\<close> (rejected, or a status outside 200--299) appends exactly one
  error message and ends the turn; the files, the history and the projects are left
  as they were.\<close>

theorem fetch_failure:
  assumes "running s = Some t" "t_phase t = Fetching"
    and "r = FetchRejected \<or> (r = Response st b \<and> \<not> (200 \<le> st \<and> st \<le> 299))"
  shows "home_step (Fetched r) s = persist (s\<lparr>messages := messages s @ [ERROR_MESSAGE], isStreaming := False, running := None\<rparr>)"
  using assms by (auto simp: home_step_def turn_fetched_def turn_failed_def turn_finally_def)

text \<open>C37: a read that fails in the middle of the stream appends the error message after
  the partial answer and ends the turn without merging the files the answer already
  contained.\<close>

theorem read_failure_no_merge:
  assumes "running s = Some t" "t_phase t = Reading buf c"
  shows "home_step ReadFailed s = persist (s\<lparr>messages := messages s @ [ERROR_MESSAGE], isStreaming := False, running := None\<rparr>)"
  using assms by (simp add: home_step_def turn_failed_def turn_finally_def)


lemma filter_map_other:
  "a \<noteq> b \<Longrightarrow> filter (\<lambda>p. pid p = b) (map (\<lambda>p. if pid p = a then p\<lparr>files := fs, pmessages := ms\<rparr> else p) ps) =
     filter (\<lambda>p. pid p = b) ps"
  by (induction ps) auto

text \<open>C35: when the user switches to project \<open>b\<close> while a turn of project \<open>a\<close> streams,
  the end of the turn stays on \<open>b\<close> but shows the files merged for \<open>a\<close>, while the
  saved entry of \<open>b\<close> is unchanged.\<close>

theorem stream_end_after_switch:
  assumes "running s = Some t" "t_phase t = Reading buf c" "t_pid t = Some a"
    and "currentProjectId s = Some b" "a \<noteq> b" "parseFilesFromResponse (assistantContent c) \<noteq> []"
  shows "currentProjectId (home_step (StreamEnd i d) s) = Some b \<and>
    allFiles (home_step (StreamEnd i d) s) = merge_files (t_files t) (parseFilesFromResponse (assistantContent c)) \<and>
    filter (\<lambda>p. pid p = b) (projects (home_step (StreamEnd i d) s)) = filter (\<lambda>p. pid p = b) (projects s)"
  using assms filter_map_other [OF assms(5)]
  by (simp add: home_step_def turn_end_def turn_finally_def Let_def updateCurrentProject_def)

lemma turn_line_fst: "fst (turn_line fs cm line) = client_line fs (fst cm) line"
  by (simp add: turn_line_def client_line_def Let_def split: option.split)

lemma fold_turn_line:
  "fst (fold (\<lambda>l cm. turn_line fs cm l) ls cm) = fold (\<lambda>l c. client_line fs c l) ls (fst cm)"
  by (induction ls arbitrary: cm) (simp_all add: turn_line_fst)

lemma feed_turn_line:
  "feed_lines (turn_line fs) (b, (c, ms)) x = (b', (c', ms')) \<Longrightarrow> feed_lines (client_line fs) (b, c) x = (b', c')"
proof -
  assume f: "feed_lines (turn_line fs) (b, (c, ms)) x = (b', (c', ms'))"
  let ?ls = "butlast (split_on LF (b @ x))"
  from f have "fold (\<lambda>l cm. turn_line fs cm l) ?ls (c, ms) = (c', ms')" "b' = last (split_on LF (b @ x))"
    by (simp_all add: feed_lines_def Let_def)
  with fold_turn_line [of fs ?ls "(c, ms)"] show ?thesis by (simp add: feed_lines_def Let_def)
qed

lemma chunk_running:
  assumes "running s = Some t" "t_phase t = Reading b c"
  shows "running (home_step (Chunk x) s) =
    Some (t\<lparr>t_phase := Reading (fst (feed_lines (client_line (t_files t)) (b, c) x)) (snd (feed_lines (client_line (t_files t)) (b, c) x))\<rparr>)"
proof -
  obtain b' c' ms' where f: "feed_lines (turn_line (t_files t)) (b, (c, messages s)) x = (b', (c', ms'))"
    by (metis prod.exhaust)
  from feed_turn_line [OF f] f assms show ?thesis by (simp add: home_step_def turn_chunk_def)
qed

lemma chunks_running:
  assumes "running s = Some t" "t_phase t = Reading b c"
  shows "running (home_run (map Chunk cs) s) =
    Some (t\<lparr>t_phase := Reading (fst (fold (\<lambda>x bs. feed_lines (client_line (t_files t)) bs x) cs (b, c)))
                                (snd (fold (\<lambda>x bs. feed_lines (client_line (t_files t)) bs x) cs (b, c)))\<rparr>)"
  using assms
proof (induction cs arbitrary: s t b c)
  case (Cons x cs)
  let ?t = "t\<lparr>t_phase := Reading (fst (feed_lines (client_line (t_files t)) (b, c) x)) (snd (feed_lines (client_line (t_files t)) (b, c) x))\<rparr>"
  have "running (home_step (Chunk x) s) = Some ?t" by (rule chunk_running [OF Cons.prems])
  from Cons.IH [OF this] show ?case by (simp add: home_run_def)
qed (simp add: home_run_def)



lemma trim_literal: "trim ''hi'' = ''hi''" "trim ''again'' = ''again''"
  by code_simp+

lemma reachable_run: "reachable s \<Longrightarrow> reachable (home_run es s)"
  unfolding home_run_def by (induction es arbitrary: s) (simp_all add: reachable.step)

lemma reachable_init: "reachable (persist (home_init None))"
  by (rule reachable.mount [of None]) (simp add: home_mount_def home_init_def)

lemma demo_streaming: "isStreaming (home_run [SetInput ''hi'', Send] (persist (home_init None)))"
  using trim_literal(1) by (simp add: home_run_def home_step_def sendMessage_def Let_def home_init_def persist_def)

theorem home_inv_reachable_witness: "home_inv (persist (home_init None))"
  using home_inv_reachable [OF reachable_init] .

theorem send_ignored_while_streaming_witness:
  "home_step Send (home_run [SetInput ''hi'', Send] (persist (home_init None))) =
     home_run [SetInput ''hi'', Send] (persist (home_init None))"
  using send_ignored_while_streaming [OF reachable_run [OF reachable_init] demo_streaming] .

theorem turn_always_ends_witness:
  "\<exists>es. length es \<le> 1 \<and> isStreaming (home_run (es @ [SetInput ''again'', Send]) (home_run [SetInput ''hi'', Send] (persist (home_init None))))"
  using turn_always_ends [OF reachable_run [OF reachable_init], of "[SetInput ''hi'', Send]"] trim_literal(2)
  by (metis list.distinct(1))

definition demo_block :: string where
  "demo_block = ''---FILE: Header.tsx---'' @ [LF] @ ''v1'' @ [LF] @ ''---END FILE---''"

abbreviation demo_turn :: "string option \<Rightarrow> turn" where
  "demo_turn a \<equiv> \<lparr>t_files = [\<lparr>path = ''App.tsx'', content = ''v1'', language = Lang ''tsx''\<rparr>], t_messages = [],
      t_pid = a, t_model = [], t_phase = Reading [] \<lparr>assistantContent = demo_block, live = []\<rparr>\<rparr>"

lemma demo_block_parse:
  "parseFilesFromResponse demo_block = [\<lparr>path = ''Header.tsx'', content = ''v1'', language = Lang ''tsx''\<rparr>]"
  by code_simp

theorem stream_end_merges_captured_witness:
  "map path (allFiles (home_step (StreamEnd ''p'' ''d'') ((home_init None)\<lparr>isStreaming := True, running := Some (demo_turn None)\<rparr>)))
     = [''App.tsx'', ''Header.tsx'']"
proof -
  have "parseFilesFromResponse (assistantContent \<lparr>assistantContent = demo_block, live = []\<rparr>) \<noteq> []"
    by (simp add: demo_block_parse)
  from stream_end_merges_captured [OF _ _ this, of "(home_init None)\<lparr>isStreaming := True, running := Some (demo_turn None)\<rparr>" "demo_turn None" "[]" "''p''" "''d''"]
  show ?thesis by (simp add: demo_block_parse merge_files_def set_all_def)
qed

theorem fetch_failure_witness:
  "messages (home_step (Fetched (Response 500 True)) ((home_init None)\<lparr>isStreaming := True, running := Some ((demo_turn None)\<lparr>t_phase := Fetching\<rparr>)\<rparr>)) = [ERROR_MESSAGE]"
  using fetch_failure [of "(home_init None)\<lparr>isStreaming := True, running := Some ((demo_turn None)\<lparr>t_phase := Fetching\<rparr>)\<rparr>"
     "(demo_turn None)\<lparr>t_phase := Fetching\<rparr>" "Response 500 True" 500 True]
  by (simp add: home_init_def)

theorem read_failure_no_merge_witness:
  "allFiles (home_step ReadFailed ((home_init None)\<lparr>isStreaming := True, running := Some (demo_turn None)\<rparr>)) = []"
  using read_failure_no_merge [of "(home_init None)\<lparr>isStreaming := True, running := Some (demo_turn None)\<rparr>" "demo_turn None"]
  by (simp add: home_init_def)

theorem stream_end_after_switch_witness:
  "currentProjectId (home_step (StreamEnd ''p'' ''d'') ((home_init None)\<lparr>currentProjectId := Some ''B'', isStreaming := True, running := Some (demo_turn (Some ''A''))\<rparr>)) = Some ''B'' \<and>
   map path (allFiles (home_step (StreamEnd ''p'' ''d'') ((home_init None)\<lparr>currentProjectId := Some ''B'', isStreaming := True, running := Some (demo_turn (Some ''A''))\<rparr>))) = [''App.tsx'', ''Header.tsx'']"
proof -
  have "parseFilesFromResponse (assistantContent \<lparr>assistantContent = demo_block, live = []\<rparr>) \<noteq> []"
    by (simp add: demo_block_parse)
  from stream_end_after_switch [OF _ _ _ _ _ this, of "(home_init None)\<lparr>currentProjectId := Some ''B'', isStreaming := True, running := Some (demo_turn (Some ''A''))\<rparr>"
     "demo_turn (Some ''A'')" "[]" "''A''" "''B''" "''p''" "''d''"]
  show ?thesis by (simp add: demo_block_parse merge_files_def set_all_def home_init_def)
qed


end
