(* ===== verification/Regex.thy ===== *)
theory Regex
  imports Prelude
begin

text \<open>
  Regular expressions of ECMAScript as \<open>String.prototype.replace\<close> runs them, for the
  patterns the preview compiler applies to transpiled code.  A pattern is a term of
  \<open>rx\<close>; \<open>rx_ends r s\<close> lists what is left of \<open>s\<close> after each way \<open>r\<close> can match a
  prefix of \<open>s\<close>, in the order the backtracking matcher of the standard tries them:
  left alternative first, a greedy quantifier's further iteration before its exit (a
  lazy one the other way round), and an iteration that consumes nothing fails (the
  empty check of \<open>RepeatMatcher\<close>).  The first element is the match \<open>exec\<close> finds at
  that position.  Capture groups are not part of the terms; each pattern with a
  group reads it back from the matched text.
\<close>

datatype rx = REmpty | RChar "char \<Rightarrow> bool" | RSeq rx rx | RAlt rx rx | RStar bool rx

function rx_ends :: "rx \<Rightarrow> string \<Rightarrow> string list" where
  "rx_ends REmpty s = [s]"
| "rx_ends (RChar P) s = (case s of c # r \<Rightarrow> if P c then [r] else [] | [] \<Rightarrow> [])"
| "rx_ends (RSeq a b) s = concat (map (rx_ends b) (rx_ends a s))"
| "rx_ends (RAlt a b) s = rx_ends a s @ rx_ends b s"
| "rx_ends (RStar greedy r) s =
     (let more = concat (map (\<lambda>s'. if length s' < length s then rx_ends (RStar greedy r) s' else []) (rx_ends r s))
      in if greedy then more @ [s] else s # more)"
  by pat_completeness auto
termination
  by (relation "inv_image (less_than <*lex*> less_than) (\<lambda>(r, s). (size r, length s))") auto

text \<open>Derived forms: \<open>r+\<close>, \<open>r?\<close> (greedy), literal text.\<close>

definition rplus :: "rx \<Rightarrow> rx" where "rplus r = RSeq r (RStar True r)"
definition ropt :: "rx \<Rightarrow> rx" where "ropt r = RAlt r REmpty"
definition rlit :: "string \<Rightarrow> rx" where "rlit w = foldr (\<lambda>c r. RSeq (RChar (\<lambda>d. d = c)) r) w REmpty"

text \<open>\<open>\s\<close>, \<open>\w\<close>, \<open>[\s\S]\<close> and \<open>.\<close> (every character but a line terminator).\<close>

definition is_word :: "char \<Rightarrow> bool" where
  "is_word c \<longleftrightarrow> c \<in> set (''ABCDEFGHIJKLMNOPQRSTUVWXYZabcdefghijklmnopqrstuvwxyz0123456789_'')"

abbreviation r_ws :: rx where "r_ws \<equiv> RChar is_ws"
abbreviation r_word :: rx where "r_word \<equiv> RChar is_word"
abbreviation r_any :: rx where "r_any \<equiv> RChar (\<lambda>c. True)"
abbreviation r_dot :: rx where "r_dot \<equiv> RChar (\<lambda>c. c \<noteq> LF \<and> c \<noteq> CR)"

text \<open>\<open>exec\<close> from the start: the first position where the pattern matches, and the
  first match there, as (text before, matched text, text after).\<close>

fun rx_search :: "rx \<Rightarrow> string \<Rightarrow> (string \<times> string \<times> string) option" where
  "rx_search r s =
     (case rx_ends r s of
        e # _ \<Rightarrow> Some ([], take (length s - length e) s, e)
      | [] \<Rightarrow> (case s of [] \<Rightarrow> None | c # cs \<Rightarrow> map_option (\<lambda>(b, m, a). (c # b, m, a)) (rx_search r cs)))"

text \<open>\<open>s.replace(re, rep)\<close> with a pattern without the \<open>g\<close> flag: the first match is
  replaced by \<open>f\<close> of the matched text.\<close>

definition rx_replace1 :: "rx \<Rightarrow> (string \<Rightarrow> string) \<Rightarrow> string \<Rightarrow> string" where
  "rx_replace1 r f s = (case rx_search r s of None \<Rightarrow> s | Some (b, m, a) \<Rightarrow> b @ f m @ a)"

text \<open>With the \<open>g\<close> flag: every match, left to right, the search resuming after a
  match, and one character further after an empty one.\<close>

function rx_replace_all :: "rx \<Rightarrow> (string \<Rightarrow> string) \<Rightarrow> string \<Rightarrow> string" where
  "rx_replace_all r f s =
     (case rx_ends r s of
        e # _ \<Rightarrow>
          if length e < length s then f (take (length s - length e) s) @ rx_replace_all r f e
          else f [] @ (case s of [] \<Rightarrow> [] | c # cs \<Rightarrow> c # rx_replace_all r f cs)
      | [] \<Rightarrow> (case s of [] \<Rightarrow> [] | c # cs \<Rightarrow> c # rx_replace_all r f cs))"
  by pat_completeness auto
termination
  by (relation "measure (\<lambda>(r, f, s). length s)") auto

subsection \<open>Properties of the matcher\<close>

text \<open>The equations that recur on a variable argument are unfolded on demand only.\<close>

declare rx_ends.simps(5) [simp del] rx_search.simps [simp del] rx_replace_all.simps [simp del]

lemma rx_ends_star_set:
  "set (rx_ends (RStar g r) s) =
     insert s (\<Union>m \<in> set (rx_ends r s). if length m < length s then set (rx_ends (RStar g r) m) else {})"
  by (subst rx_ends.simps(5)) (auto simp: Let_def split: if_splits)

lemma rx_ends_suffix: "s' \<in> set (rx_ends r s) \<Longrightarrow> suffix s' s"
proof (induction r s arbitrary: s' rule: rx_ends.induct)
  case (2 P s)
  then show ?case by (cases s) (auto split: if_splits intro: suffix_ConsI)
next
  case (3 a b s)
  then obtain m where m: "m \<in> set (rx_ends a s)" "s' \<in> set (rx_ends b m)" by auto
  from "3.IH"(2) [OF m(1) m(2)] "3.IH"(1) [OF m(1)] show ?case
    by (metis suffix_order.trans)
next
  case (5 g r s)
  show ?case
  proof (cases "s' = s")
    case False
    from "5.prems" have "s' \<in> insert s (\<Union>m \<in> set (rx_ends r s). if length m < length s then set (rx_ends (RStar g r) m) else {})"
      by (subst (asm) rx_ends_star_set)
    with False obtain m where m: "m \<in> set (rx_ends r s)" "length m < length s" "s' \<in> set (rx_ends (RStar g r) m)"
      by (auto split: if_splits)
    from "5.IH"(2) [OF m(1) m(2) m(3)] "5.IH"(1) [OF m(1)] show ?thesis
      by (metis suffix_order.trans)
  qed simp
qed auto

lemma rx_ends_lit: "rx_ends (rlit w) (w @ s) = [s]"
  by (induction w) (simp_all add: rlit_def)

lemma rx_ends_lit_Nil: "\<not> prefix w s \<Longrightarrow> rx_ends (rlit w) s = []"
proof (induction w arbitrary: s)
  case (Cons c w)
  then show ?case by (cases s) (auto simp: rlit_def)
qed simp

end
