(* ===== verification/Preview.thy ===== *)
theory Preview
  imports Regex FileBlocks
begin

text \<open>
  The PreviewCompiler: \<open>generateSrcDoc\<close> of \<open>LivePreview\<close> (\<open>page.tsx\<close> lines
  411--516) builds the document of the preview iframe from the files: the first HTML
  file (or a default document), every CSS file as a \<open>style\<close> element before
  \<open></head>\<close>, and a module script before \<open></body>\<close>: for TSX/JSX files a preamble,
  each file transpiled by sucrase with its imports and exports rewritten, and the
  mounting code; otherwise the plain JS files.  The transpiler is a parameter
  \<open>transform\<close> from source text to code, \<open>None\<close> when it throws.  Every other
  operation in the outer \<open>try\<close> is total on strings, so its \<open>catch\<close> (and the
  "Deployment Failed" state) is never reached from synthesis.
\<close>

definition rseq :: "rx list \<Rightarrow> rx" where "rseq rs = foldr RSeq rs REmpty"

text \<open>\<open>/import\s+[\s\S]*?from\s+['"].*?['"];?/g\<close>\<close>

definition IMPORT_RX :: rx where
  "IMPORT_RX = rseq [rlit ''import'', rplus r_ws, RStar False r_any, rlit ''from'', rplus r_ws,
     RChar (\<lambda>c. c = CHR 0x27 \<or> c = CHR 0x22), RStar False r_dot, RChar (\<lambda>c. c = CHR 0x27 \<or> c = CHR 0x22), ropt (RChar (\<lambda>c. c = CHR '';''))]"

text \<open>\<open>/export\s+default\s+function\s+(\w+)/\<close>, \<open>/export\s+function\s+(\w+)/\<close> and
  \<open>/export\s+const\s+(\w+)/\<close>.  The group \<open>(\w+)\<close> ends the pattern and follows
  whitespace, so it is the longest run of word characters that ends the match.\<close>

definition EXPORT_DEFAULT_RX :: rx where
  "EXPORT_DEFAULT_RX = rseq [rlit ''export'', rplus r_ws, rlit ''default'', rplus r_ws, rlit ''function'', rplus r_ws, rplus r_word]"

definition EXPORT_FUNCTION_RX :: rx where
  "EXPORT_FUNCTION_RX = rseq [rlit ''export'', rplus r_ws, rlit ''function'', rplus r_ws, rplus r_word]"

definition EXPORT_CONST_RX :: rx where
  "EXPORT_CONST_RX = rseq [rlit ''export'', rplus r_ws, rlit ''const'', rplus r_ws, rplus r_word]"

definition group1 :: "string \<Rightarrow> string" where
  "group1 m = rev (takeWhile is_word (rev m))"

text \<open>The "basic module simulation" applied to the transpiled code (lines 474--478).\<close>

definition scope_code :: "string \<Rightarrow> string" where
  "scope_code code =
     rx_replace1 EXPORT_CONST_RX (\<lambda>m. ''const '' @ group1 m)
      (rx_replace1 EXPORT_FUNCTION_RX (\<lambda>m. ''function '' @ group1 m)
        (rx_replace1 EXPORT_DEFAULT_RX (\<lambda>m. ''function '' @ group1 m)
          (rx_replace_all IMPORT_RX (\<lambda>m. []) code)))"

text \<open>The template literals of the function, with their line breaks and indentation.\<close>

definition DEFAULT_HTML :: string where
  "DEFAULT_HTML =
     join [LF]
     [[],
      ''        <!DOCTYPE html>'',
      ''        <html>'',
      ''          <head>'',
      ''            <meta charset=\"UTF-8\" />'',
      ''            <meta name=\"viewport\" content=\"width=device-width, initial-scale=1.0\" />'',
      ''            <script src=\"https://cdn.tailwindcss.com\"></script>'',
      ''            <link href=\"https://fonts.googleapis.com/css2?family=Inter:wght@400;500;600;700&display=swap\" rel=\"stylesheet\">'',
      ''            <style>'',
      ''              body { background: #000; color: #fff; font-family: 'Inter', sans-serif; margin: 0; min-height: 100vh; }'',
      ''              #root { min-height: 100vh; }'',
      ''            </style>'',
      ''          </head>'',
      ''          <body>'',
      ''            <div id=\"root\"></div>'',
      ''          </body>'',
      ''        </html>'',
      ''      '']"

definition PREAMBLE :: string where
  "PREAMBLE =
     join [LF]
     [[],
      ''          window.process = { env: { NODE_ENV: 'development' } };'',
      ''          import React, { useState, useEffect, useCallback, useMemo, useRef } from 'https://esm.sh/react@18';'',
      ''          import ReactDOM from 'https://esm.sh/react-dom@18/client';'',
      ''          import * as Lucide from 'https://esm.sh/lucide-react@0.454.0';'',
      ''          import { motion, AnimatePresence } from 'https://esm.sh/framer-motion@11';'',
      ''          '',
      ''          window.React = React;'',
      ''          window.Lucide = Lucide;'',
      ''          window.motion = motion;'',
      ''          window.AnimatePresence = AnimatePresence;'',
      ''        '']"

definition MOUNT_SCRIPT :: string where
  "MOUNT_SCRIPT =
     join [LF]
     [[],
      ''          setTimeout(() => {'',
      ''            const rootEl = document.getElementById('root');'',
      ''            if (!rootEl) return;'',
      ''            const root = ReactDOM.createRoot(rootEl);'',
      ''            const Entry = typeof App !== 'undefined' ? App : (typeof Home !== 'undefined' ? Home : null);'',
      ''            if (Entry) {'',
      ''              root.render(React.createElement(Entry));'',
      ''            } else {'',
      ''              // Try to find any defined component'',
      ''              const components = Object.keys(window).filter(k => /^[A-Z]/.test(k) && typeof window[k] === 'function');'',
      ''              if (components.length > 0) {'',
      ''                root.render(React.createElement(window[components[0]]));'',
      ''              }'',
      ''            }'',
      ''          }, 100);'',
      ''        '']"

definition is_tsx :: "parsed_file \<Rightarrow> bool" where
  "is_tsx f \<longleftrightarrow> suffix ''.tsx'' (path f) \<or> suffix ''.jsx'' (path f)"

definition is_html :: "parsed_file \<Rightarrow> bool" where
  "is_html f \<longleftrightarrow> suffix ''.html'' (path f) \<or> path f = ''index.html''"

definition is_css :: "parsed_file \<Rightarrow> bool" where
  "is_css f \<longleftrightarrow> suffix ''.css'' (path f)"

definition is_js :: "parsed_file \<Rightarrow> bool" where
  "is_js f \<longleftrightarrow> suffix ''.js'' (path f) \<and> \<not> suffix ''.json'' (path f)"

definition style_tag :: "parsed_file \<Rightarrow> string" where
  "style_tag f = ''<style id=\"'' @ path f @ ''\">'' @ content f @ ''</style>''"

text \<open>One TSX file: nothing when the transform throws (the error is logged).\<close>

definition tsx_chunk :: "(string \<Rightarrow> string option) \<Rightarrow> parsed_file \<Rightarrow> string" where
  "tsx_chunk transform f =
     (case transform (content f) of
        None \<Rightarrow> []
      | Some code \<Rightarrow> [LF] @ ''// File: '' @ path f @ [LF] @ scope_code code @ [LF])"

definition js_chunk :: "parsed_file \<Rightarrow> string" where
  "js_chunk f = [LF] @ ''// File: '' @ path f @ [LF] @ content f @ [LF]"

definition generateSrcDoc :: "(string \<Rightarrow> string option) \<Rightarrow> parsed_file list \<Rightarrow> string" where
  "generateSrcDoc transform files =
     (let htmlFile = find is_html files;
          tsxFiles = filter is_tsx files;
          base0 = (case htmlFile of Some f \<Rightarrow> if content f \<noteq> [] then content f else DEFAULT_HTML | None \<Rightarrow> DEFAULT_HTML);
          styles = join [LF] (map style_tag (filter is_css files));
          baseHtml = js_replace base0 ''</head>'' (styles @ ''</head>'');
          scriptContent = (if tsxFiles \<noteq> []
                           then PREAMBLE @ concat (map (tsx_chunk transform) tsxFiles) @ MOUNT_SCRIPT
                           else concat (map js_chunk (filter is_js files)))
      in js_replace baseHtml ''</body>'' (''<script type=\"module\">'' @ scriptContent @ ''</script></body>''))"

text \<open>The SandboxHost: the \<open>sandbox\<close> attribute of the preview \<open>iframe\<close> (line 562).
  A \<open>srcDoc\<close> document has the origin of the page that embeds it, so with both
  \<open>allow-scripts\<close> and \<open>allow-same-origin\<close> its scripts run with the app's origin:
  they can read the app's \<open>localStorage\<close> and reach \<open>window.parent\<close>.\<close>

definition SANDBOX :: "string list" where
  "SANDBOX = [''allow-scripts'', ''allow-modals'', ''allow-popups'', ''allow-forms'', ''allow-same-origin'']"

definition same_origin_scripts :: "string list \<Rightarrow> bool" where
  "same_origin_scripts flags \<longleftrightarrow> ''allow-scripts'' \<in> set flags \<and> ''allow-same-origin'' \<in> set flags"

subsection \<open>Properties\<close>

lemma suffix_literal_clash:
  assumes "suffix u p" "suffix v p" "\<not> suffix u v" "\<not> suffix v u"
  shows False
  using assms suffix_same_cases by blast

lemma is_tsx_not_html: "is_tsx f \<Longrightarrow> \<not> is_html f"
  unfolding is_tsx_def is_html_def
  by (auto dest: suffix_literal_clash [of _ "path f"] simp: suffix_def)

lemma is_tsx_not_css: "is_tsx f \<Longrightarrow> \<not> is_css f"
  unfolding is_tsx_def is_css_def
  by (auto dest: suffix_literal_clash [of _ "path f"] simp: suffix_def)

lemma find_filter_other: "(\<forall>x \<in> set xs. Q x \<longrightarrow> P x) \<Longrightarrow> find Q (filter P xs) = find Q xs"
  by (induction xs) auto

lemma filter_filter_other: "(\<forall>x \<in> set xs. Q x \<longrightarrow> P x) \<Longrightarrow> filter Q (filter P xs) = filter Q xs"
  by (induction xs) auto

lemma concat_tsx_chunk_filter:
  "concat (map (tsx_chunk t) (filter (\<lambda>f. t (content f) \<noteq> None) xs)) = concat (map (tsx_chunk t) xs)"
  by (induction xs) (auto simp: tsx_chunk_def)

text \<open>C39: a TSX file whose transform throws is left out and the others are still
  compiled: as long as one TSX file compiles, the document is the one for the files
  without the failing ones (per-file failure isolation).\<close>

theorem generateSrcDoc_skips_failed:
  assumes "\<exists>f \<in> set files. is_tsx f \<and> transform (content f) \<noteq> None"
  shows "generateSrcDoc transform files =
    generateSrcDoc transform (filter (\<lambda>f. \<not> is_tsx f \<or> transform (content f) \<noteq> None) files)"
proof -
  let ?P = "\<lambda>f. \<not> is_tsx f \<or> transform (content f) \<noteq> None"
  have h: "find is_html (filter ?P files) = find is_html files"
    by (rule find_filter_other) (auto dest: is_tsx_not_html)
  have c: "filter is_css (filter ?P files) = filter is_css files"
    by (rule filter_filter_other) (auto dest: is_tsx_not_css)
  have t: "filter is_tsx (filter ?P files) = filter (\<lambda>f. transform (content f) \<noteq> None) (filter is_tsx files)"
    by (induction files) auto
  have ne: "filter is_tsx files \<noteq> []" "filter (\<lambda>f. transform (content f) \<noteq> None) (filter is_tsx files) \<noteq> []"
    using assms by (auto simp: filter_empty_conv)
  show ?thesis
    unfolding generateSrcDoc_def Let_def h c t concat_tsx_chunk_filter using ne by simp
qed

theorem generateSrcDoc_skips_failed_witness:
  "generateSrcDoc (\<lambda>c. if c = ''x'' then Some ''x'' else None)
     [\<lparr>path = ''App.tsx'', content = ''x'', language = Lang ''tsx''\<rparr>, \<lparr>path = ''Bad.tsx'', content = ''y'', language = Lang ''tsx''\<rparr>] =
   generateSrcDoc (\<lambda>c. if c = ''x'' then Some ''x'' else None) [\<lparr>path = ''App.tsx'', content = ''x'', language = Lang ''tsx''\<rparr>]"
proof -
  have "is_tsx \<lparr>path = ''App.tsx'', content = ''x'', language = Lang ''tsx''\<rparr>" "is_tsx \<lparr>path = ''Bad.tsx'', content = ''y'', language = Lang ''tsx''\<rparr>"
    by (simp_all add: is_tsx_def suffix_def)
  with generateSrcDoc_skips_failed [of "[\<lparr>path = ''App.tsx'', content = ''x'', language = Lang ''tsx''\<rparr>, \<lparr>path = ''Bad.tsx'', content = ''y'', language = Lang ''tsx''\<rparr>]"
      "\<lambda>c. if c = ''x'' then Some ''x'' else None"]
  show ?thesis by simp
qed

text \<open>The import pattern is lazy across lines: after a side-effect import
  \<open>import "./a.css";\<close>, which has no \<open>from\<close>, the match runs on to the \<open>from\<close> of the
  next import, and the code in between is deleted.\<close>

theorem scope_code_side_effect_import:
  "scope_code (''import \"./a.css\";'' @ [LF] @ ''const x = 1;'' @ [LF] @ ''import R from \"r\";'' @ [LF] @ ''App'') = [LF] @ ''App''"
  by code_simp

text \<open>The preview's scripts run with the app's origin.\<close>

theorem SANDBOX_same_origin: "same_origin_scripts SANDBOX"
  by (simp add: same_origin_scripts_def SANDBOX_def)

end
