(* ===== verification/HomeView.thy ===== *)
theory HomeView
  imports Turn Preview
begin

text \<open>
  What \<open>Home\<close> (\<open>src/src/app/page.tsx\<close>) renders and what its controls do.  A render
  is a list of \<open>widget\<close>s in document order: the texts a user reads, the images, and
  the controls with whether they are enabled and what a click does.  Styling is not
  modelled.  A click is an \<open>action\<close>: the events of the Home state machine of \<open>Turn\<close>
  it triggers (the handlers of the page are compositions of them), or a handler with
  state of its own (voice input, the copy button, the downloads, the preview reload),
  each a small step function below.  A render that throws (React rejects an object as
  a child) is the value \<open>Inl\<close> with the error.
\<close>

datatype action =
    Emit "event list"
  | NewProjectClick
  | ExportClick
  | PickImageClick
  | MicClick
  | CopyClick
  | DownloadClick
  | ReloadClick

datatype widget =
    Text string
  | Img string
  | Button string bool action
  | Select string "(string \<times> string) list"
  | TextArea string string
  | Tree "file_node list" "string option"
  | Frame string "string list"
  | Spinner
  | Row bool "widget list"

subsection \<open>Models\<close>

text \<open>\<open>MODELS\<close> (lines 89--95): the OpenRouter model ids and their names.\<close>

definition MODELS :: "(string \<times> string) list" where
  "MODELS =
     [(''google/gemini-2.0-flash-001'', ''Gemini 2.0 Flash''), (''anthropic/claude-3.5-sonnet'', ''Claude 3.5 Sonnet''),
      (''openai/gpt-4o'', ''GPT-4o''), (''deepseek/deepseek-chat'', ''DeepSeek Chat''),
      (''meta-llama/llama-3.1-405b-instruct'', ''Llama 3.1 405B'')]"

subsection \<open>Components\<close>

text \<open>\<open>ArtifactBox\<close> (lines 298--333): the path, the count with a plus sign, the
  words \<open>lines edited\<close>, the badge of a new file; the whole box is the button.\<close>

definition ArtifactBox :: "artifact_info \<Rightarrow> action \<Rightarrow> widget" where
  "ArtifactBox a onView =
     Row False ([Button (art_path a) True onView, Text (nat_str (linesAdded a)), Text ''lines edited'']
                @ (if isNew a then [Text ''New Artifact''] else []))"

text \<open>A value as a React child: a string is its text, \<open>undefined\<close> and a function
  render nothing, and an object throws.  The inherited member \<open>__proto__\<close> is
  \<open>Object.prototype\<close>, an object; the other inherited members are functions.\<close>

definition OBJECT_CHILD_ERROR :: string where
  "OBJECT_CHILD_ERROR = ''Objects are not valid as a React child''"

definition lang_child :: "lang_value \<Rightarrow> string + string" where
  "lang_child l = (case l of
      Lang x \<Rightarrow> Inr x
    | Inherited k \<Rightarrow> if k = ''__proto__'' then Inl OBJECT_CHILD_ERROR else Inr []
    | EmptyObject \<Rightarrow> Inl OBJECT_CHILD_ERROR
    | Undefined \<Rightarrow> Inr [])"

text \<open>\<open>code.split("\n").length\<close>.\<close>

definition line_count :: "string \<Rightarrow> nat" where
  "line_count code = length (split_on LF code)"

text \<open>\<open>CodePreview\<close> (lines 336--409) with its state \<open>copied\<close>: the file name, the
  language, the line count, the download and copy buttons, and the code.\<close>

definition CodePreview :: "string \<Rightarrow> lang_value \<Rightarrow> string \<Rightarrow> bool \<Rightarrow> string + widget list" where
  "CodePreview code lang fileName copied =
     (case lang_child lang of
        Inl e \<Rightarrow> Inl e
      | Inr l \<Rightarrow> Inr [Text fileName, Text l, Text (nat_str (line_count code) @ '' lines''),
                     Button ''Download'' True DownloadClick,
                     Button (if copied then ''Copied!'' else ''Copy Code'') True CopyClick, Text code])"

text \<open>\<open>LivePreview\<close> (lines 411--414, 514--563) with its state \<open>error\<close> and
  \<open>reloadKey\<close>.  The memoised \<open>generateSrcDoc\<close> runs in the render; its \<open>try\<close> block
  ends with \<open>setError(null)\<close>, and none of its steps throws on a list of files (a
  failing transform is caught per file), so the render shows the frame.\<close>

record live_preview =
  lp_error :: "string option"
  reloadKey :: nat

definition live_preview_render ::
  "(string \<Rightarrow> string option) \<Rightarrow> parsed_file list \<Rightarrow> live_preview \<Rightarrow> live_preview \<times> widget list" where
  "live_preview_render transform fs st =
     (let srcDoc = generateSrcDoc transform fs;
          st' = st\<lparr>lp_error := None\<rparr> in
      (st', [Text ''localhost:3000'', Button ''Reload Environment'' True ReloadClick, Button ''Maximize'' True (Emit [])]
            @ (case lp_error st' of
                 Some e \<Rightarrow> [Text ''Deployment Failed'', Text e, Button ''Retry Build'' True ReloadClick]
               | None \<Rightarrow> [Frame srcDoc SANDBOX])))"

definition live_preview_reload :: "live_preview \<Rightarrow> live_preview" where
  "live_preview_reload st = st\<lparr>reloadKey := Suc (reloadKey st)\<rparr>"

subsection \<open>The page\<close>

text \<open>The top bar (lines 970--1037): \<open>createNewProject()\<close> with its default name,
  undo disabled on an empty history, the export, and the model select.\<close>

definition top_bar :: "home \<Rightarrow> widget list" where
  "top_bar s =
     [Text ''Orchids'', Button ''New Project'' True NewProjectClick,
      Button ''Undo Last Operation'' (fileHistory s \<noteq> []) (Emit [Undo]),
      Button ''Export Repository'' True ExportClick,
      Select (selectedModel s) MODELS, Text ''Pro Developer'', Text ''John Doe'', Text ''JD'']"

text \<open>The project list (lines 1050--1085), the current project highlighted.  The
  delete button stops the click's propagation, so the row's \<open>switchProject\<close> does
  not run.\<close>

definition project_list :: "home \<Rightarrow> widget list" where
  "project_list s =
     (if projects s \<noteq> [] then
        [Text ''Active Projects'', Button ''New Project'' True NewProjectClick]
        @ map (\<lambda>p. Row (currentProjectId s = Some (pid p))
                     [Button (pname p) True (Emit [SwitchProject (pid p)]),
                      Button ''Delete'' True (Emit [DeleteProject (pid p)])]) (projects s)
      else [])"

text \<open>The empty state (lines 1087--1118): three suggestions that fill the input.\<close>

definition SUGGESTIONS :: "string list" where
  "SUGGESTIONS = [''Premium Fintech Dashboard with Charts'', ''Animated Creative Agency Portfolio'',
                  ''Real-time Collaborative Task System'']"

definition empty_state :: "home \<Rightarrow> widget list" where
  "empty_state s =
     (if messages s = [] then
        [Text ''Forge your app'', Text ''Describe your digital vision and watch the architecture unfold in real-time.'']
        @ map (\<lambda>x. Button x True (Emit [SetInput x])) SUGGESTIONS
      else [])"

text \<open>The file node an artifact's \<open>onView\<close> selects (lines 1156--1165): its name,
  its path, its content and the language of its path.\<close>

definition artifact_node :: "artifact_info \<Rightarrow> file_node" where
  "artifact_node a =
     (let n = last (split_on CHR ''/'' (art_path a)) in
      Node (if n = [] then art_path a else n) (art_path a) File None (Some (art_content a))
           (Some (getLanguageFromPath (art_path a))))"

text \<open>A message bubble (lines 1120--1182): the image, the text (an answer without
  its file blocks), the artifacts of an answer, and the typing dots on the last
  message while a turn streams, if it is an answer.\<close>

definition message_bubble :: "home \<Rightarrow> nat \<Rightarrow> message \<Rightarrow> widget" where
  "message_bubble s i msg =
     Row (role msg = User)
       ((if has_image (image msg) then [Img (the (image msg))] else [])
        @ [Text (if role msg = Assistant then stripFileBlocks (msg_content msg) else msg_content msg)]
        @ (case artifacts msg of
             Some arts \<Rightarrow>
               if role msg = Assistant \<and> arts \<noteq> [] then
                 Text ''Digital Blueprint'' #
                 map (\<lambda>a. ArtifactBox a (Emit [SelectFile (artifact_node a), SetPanel CodePanel])) arts
               else []
           | None \<Rightarrow> [])
        @ (if role msg = Assistant \<and> isStreaming s \<and> i = length (messages s) - 1 then [Spinner] else []))"

definition message_list :: "home \<Rightarrow> widget list" where
  "message_list s = map (\<lambda>(i, m). message_bubble s i m) (enumerate 0 (messages s))"

text \<open>The Build button (lines 1216--1222): disabled while streaming or when there
  is neither text nor an image; a spinner while streaming.\<close>

definition build_button :: "home \<Rightarrow> widget" where
  "build_button s =
     Button (if isStreaming s then [] else ''Build'')
       (\<not> (isStreaming s \<or> (trim (input s) = [] \<and> \<not> has_image (imageAttachment s)))) (Emit [Send])"

text \<open>The input area (lines 1186--1227): the attached image with its remove button,
  the textarea, the image and voice buttons, and Build.\<close>

definition input_area :: "home \<Rightarrow> widget list" where
  "input_area s =
     (if has_image (imageAttachment s) then [Img (the (imageAttachment s)), Button ''Remove'' True (Emit [ClearImage])]
      else [])
     @ [TextArea (input s) ''Masterpiece in progress... Ask me to build anything.'',
        Button ''Reference Image'' True PickImageClick, Button ''Voice Interface'' True MicClick, build_button s]"

text \<open>\<open>selectedFile.language || "text"\<close>.\<close>

definition code_language :: "lang_value option \<Rightarrow> lang_value" where
  "code_language l = (case l of
      Some (Lang x) \<Rightarrow> if x = [] then Lang ''text'' else Lang x
    | Some Undefined \<Rightarrow> Lang ''text''
    | Some v \<Rightarrow> v
    | None \<Rightarrow> Lang ''text'')"

text \<open>The right panel (lines 1229--1291): the two tabs; the code view with the tree
  when there are files and the \<open>CodePreview\<close> of the selected file; or the preview.\<close>

definition right_panel ::
  "(string \<Rightarrow> string option) \<Rightarrow> bool \<Rightarrow> live_preview \<Rightarrow> home \<Rightarrow> string + widget list" where
  "right_panel transform copied lp s =
     (let tabs = [Button ''Codebase'' True (Emit [SetPanel CodePanel]),
                  Button ''Live Preview'' True (Emit [SetPanel PreviewPanel])] in
      case rightPanel s of
        CodePanel \<Rightarrow>
          (let tree = (if allFiles s \<noteq> [] then [Text ''Project Map'', Tree (buildFileTree (allFiles s)) (map_option fn_path (selectedFile s))]
                       else []) in
           case selectedFile s of
             Some n \<Rightarrow>
               (case CodePreview (case fn_content n of Some c \<Rightarrow> c | None \<Rightarrow> []) (code_language (fn_language n))
                                 (fn_path n) copied of
                  Inl e \<Rightarrow> Inl e
                | Inr w \<Rightarrow> Inr (tabs @ tree @ w))
           | None \<Rightarrow> Inr (tabs @ tree @ [Text ''Decrypting Stream'']))
      | PreviewPanel \<Rightarrow> Inr (tabs @ snd (live_preview_render transform (allFiles s) lp)))"

text \<open>The whole page: the top bar, the chat column, the right panel.  An exception
  in the render unmounts the page.\<close>

definition page_view ::
  "(string \<Rightarrow> string option) \<Rightarrow> bool \<Rightarrow> live_preview \<Rightarrow> home \<Rightarrow> string + widget list" where
  "page_view transform copied lp s =
     (case right_panel transform copied lp s of
        Inl e \<Rightarrow> Inl e
      | Inr r \<Rightarrow> Inr (top_bar s @ project_list s @ empty_state s @ message_list s @ input_area s @ r))"

text \<open>The Home events of a click; \<open>createNewProject()\<close> draws an id and a date.\<close>

definition action_events :: "string \<Rightarrow> string \<Rightarrow> action \<Rightarrow> event list" where
  "action_events i d a = (case a of
      Emit es \<Rightarrow> es
    | NewProjectClick \<Rightarrow> [NewProject ''Untitled Project'' i d]
    | _ \<Rightarrow> [])"

subsection \<open>Handlers with state of their own\<close>

text \<open>Voice input (lines 738--766): the recognizer created at mount when the browser
  has one (\<open>recognition\<close>), the page's \<open>isRecording\<close>, and whether the recognizer
  itself is listening.  \<open>start()\<close> on a recognizer that is listening throws
  \<open>InvalidStateError\<close>; the handler then stops before \<open>setIsRecording(true)\<close>.
  \<open>stop()\<close> ends the recognition, which reports \<open>onend\<close> later.  A result is
  appended to the input by a functional update, that is the event \<open>SetInput\<close> of
  the current input.\<close>

record voice =
  rec_available :: bool
  isRecording :: bool
  listening :: bool

definition voice_init :: "bool \<Rightarrow> voice" where
  "voice_init avail = \<lparr>rec_available = avail, isRecording = False, listening = False\<rparr>"

datatype voice_event = ToggleRecording | RecResult string | RecError | RecEnd

definition transcript_input :: "string \<Rightarrow> string \<Rightarrow> string" where
  "transcript_input prev transcript = (if prev \<noteq> [] then prev @ '' '' @ transcript else transcript)"

fun voice_step :: "voice_event \<Rightarrow> home \<times> voice \<Rightarrow> string + home \<times> voice" where
  "voice_step ToggleRecording (s, v) =
     (if \<not> rec_available v then Inr (s, v)
      else if isRecording v then Inr (s, v)
      else if listening v then Inl ''InvalidStateError''
      else Inr (s, v\<lparr>isRecording := True, listening := True\<rparr>))"
| "voice_step (RecResult x) (s, v) =
     (if listening v then Inr (home_step (SetInput (transcript_input (input s) x)) s, v\<lparr>isRecording := False\<rparr>)
      else Inr (s, v))"
| "voice_step RecError (s, v) = (if listening v then Inr (s, v\<lparr>isRecording := False\<rparr>) else Inr (s, v))"
| "voice_step RecEnd (s, v) = (if listening v then Inr (s, v\<lparr>isRecording := False, listening := False\<rparr>) else Inr (s, v))"

text \<open>\<open>handleImageUpload\<close> (lines 768--774): no file chosen does nothing; a chosen file
  is read as a data URL, which becomes the attachment when the reader loads.\<close>

definition handleImageUpload :: "string option \<Rightarrow> event list" where
  "handleImageUpload chosen = (case chosen of None \<Rightarrow> [] | Some dataUrl \<Rightarrow> [AttachImage dataUrl])"

text \<open>The copy button of \<open>CodePreview\<close> (lines 347--353): the clipboard, the label
  state \<open>copied\<close>, and the timers still pending; each timer resets the label.\<close>

record copy_state =
  copied :: bool
  timers :: nat
  clipboard :: string

datatype copy_event = CopyCode string | CopyTimeout

fun copy_step :: "copy_event \<Rightarrow> copy_state \<Rightarrow> copy_state" where
  "copy_step (CopyCode code) st = st\<lparr>clipboard := code, copied := True, timers := Suc (timers st)\<rparr>"
| "copy_step CopyTimeout st = (if timers st = 0 then st else st\<lparr>copied := False, timers := timers st - 1\<rparr>)"

text \<open>The downloads (lines 811--834): a file under its last path segment, or
  \<open>file.txt\<close>; the project as the text of \<open>JSON.stringify(projectData, null, 2)\<close>
  with the time stamp the environment gives.\<close>

record download =
  dl_name :: string
  dl_type :: string
  dl_text :: string

definition download_name :: "string \<Rightarrow> string" where
  "download_name p = (let n = last (split_on CHR ''/'' p) in if n \<noteq> [] then n else ''file.txt'')"

definition downloadFile :: "parsed_file \<Rightarrow> download" where
  "downloadFile f = \<lparr>dl_name = download_name (path f), dl_type = ''text/plain'', dl_text = content f\<rparr>"

text \<open>The download button of the code view (line 1268): the file of \<open>allFiles\<close> with
  the selected path, if there is one.\<close>

definition code_download :: "home \<Rightarrow> download option" where
  "code_download s = (case selectedFile s of
      Some n \<Rightarrow> map_option downloadFile (find (\<lambda>f. path f = fn_path n) (allFiles s))
    | None \<Rightarrow> None)"

text \<open>A sequence of voice events; a handler that throws ends it.\<close>

fun voice_run :: "voice_event list \<Rightarrow> home \<times> voice \<Rightarrow> string + home \<times> voice" where
  "voice_run [] hv = Inr hv"
| "voice_run (e # es) hv = (case voice_step e hv of Inl err \<Rightarrow> Inl err | Inr hv' \<Rightarrow> voice_run es hv')"

text \<open>An answer with one file block for a path whose extension is \<open>__proto__\<close>.\<close>

definition proto_block :: string where
  "proto_block = ''---FILE: x.__proto__---'' @ [LF] @ ''v1'' @ [LF] @ ''---END FILE---''"

subsection \<open>Properties\<close>

lemma proto_block_parse:
  "parseFilesFromResponse proto_block = [\<lparr>path = ''x.__proto__'', content = ''v1'', language = Inherited ''__proto__''\<rparr>]"
  by code_simp

lemma sendMessage_changes:
  "sendMessage s \<noteq> s \<longleftrightarrow> \<not> (isStreaming s \<or> (trim (input s) = [] \<and> \<not> has_image (imageAttachment s)))"
proof (cases "isStreaming s \<or> (trim (input s) = [] \<and> \<not> has_image (imageAttachment s))")
  case True
  then show ?thesis by (auto simp: sendMessage_def)
next
  case False
  then have "length (messages (sendMessage s)) = Suc (length (messages s))"
    by (auto simp: sendMessage_def Let_def)
  with False show ?thesis by auto
qed

text \<open>C10: the Build button is enabled exactly when \<open>sendMessage\<close> would act: its
  \<open>disabled\<close> condition is the guard of the handler, so the trigger is disabled while a
  turn streams and clicking it never does nothing.\<close>

theorem build_button_guard:
  "build_button s = Button (if isStreaming s then [] else ''Build'') (home_event Send s \<noteq> s) (Emit [Send])"
  by (simp add: build_button_def sendMessage_changes)

lemma find_update_project:
  "find (\<lambda>q. pid q = a) (map (\<lambda>q. if pid q = a then q\<lparr>files := ff, pmessages := ms\<rparr> else q) ps) =
     map_option (\<lambda>q. q\<lparr>files := ff, pmessages := ms\<rparr>) (find (\<lambda>q. pid q = a) ps)"
  by (induction ps) auto

lemma last_message_list:
  "messages s \<noteq> [] \<Longrightarrow> last (message_list s) = message_bubble s (length (messages s) - 1) (last (messages s))"
  by (simp add: message_list_def last_map enumerate_eq_zip last_zip)

text \<open>C30: the artifact boxes of an answer live only in the \<open>messages\<close> state: the end
  of the turn leaves the transcript shown as it was, but saves the answer into the
  project with \<open>artifacts: []\<close>, so after switching to the project again the last
  bubble shows only the text of the answer.\<close>

theorem artifacts_gone_after_switch:
  assumes "running s = Some t" "t_phase t = Reading buf c" "t_pid t = Some p"
    and "find (\<lambda>q. pid q = p) (projects s) \<noteq> None"
  shows "messages (home_step (StreamEnd i d) s) = messages s \<and>
    last (message_list (home_run [StreamEnd i d, SwitchProject p] s)) =
      Row False [Text (stripFileBlocks (assistantContent c))]"
proof -
  define s1 where "s1 = home_step (StreamEnd i d) s"
  obtain q where q: "find (\<lambda>q. pid q = p) (projects s) = Some q" using assms(4) by auto
  have m1: "messages s1 = messages s"
    using assms(1-3) by (simp add: s1_def home_step_def turn_end_def turn_finally_def Let_def updateCurrentProject_def)
  have pr: "projects s1 = map (\<lambda>q. if pid q = p then q\<lparr>files := (if parseFilesFromResponse (assistantContent c) \<noteq> []
        then merge_files (t_files t) (parseFilesFromResponse (assistantContent c)) else t_files t),
        pmessages := t_messages t @ [\<lparr>role = Assistant, msg_content = assistantContent c, image = None, artifacts = Some []\<rparr>]\<rparr> else q) (projects s)"
    using assms(1-3) by (simp add: s1_def home_step_def turn_end_def turn_finally_def Let_def updateCurrentProject_def)
  have st1: "\<not> isStreaming s1"
    using assms(1-3) by (simp add: s1_def home_step_def turn_end_def turn_finally_def Let_def updateCurrentProject_def split: option.split)
  define s2 where "s2 = home_step (SwitchProject p) s1"
  have m2: "messages s2 = t_messages t @ [\<lparr>role = Assistant, msg_content = assistantContent c, image = None, artifacts = Some []\<rparr>]"
    using pr q by (simp add: s2_def home_step_def switchProject_def find_update_project)
  have st2: "\<not> isStreaming s2" using st1 q pr by (simp add: s2_def home_step_def switchProject_def find_update_project)
  have "last (message_list s2) = Row False [Text (stripFileBlocks (assistantContent c))]"
    using m2 st2 by (simp add: last_message_list message_bubble_def has_image_def)
  moreover have "home_run [StreamEnd i d, SwitchProject p] s = s2" by (simp add: home_run_def s1_def s2_def)
  ultimately show ?thesis using m1 s1_def by simp
qed

text \<open>C21: an answer whose first file has the extension \<open>__proto__\<close> crashes the page
  when the turn ends with the code view open: the file is selected, its language is
  \<open>Object.prototype\<close>, and \<open>CodePreview\<close> renders it as a child, which React rejects.\<close>

theorem proto_file_crashes_page:
  assumes "running s = Some t" "t_phase t = Reading buf c" "rightPanel s = CodePanel"
    and "parseFilesFromResponse (assistantContent c) = f # fs" "language f = Inherited ''__proto__''"
  shows "page_view transform cp lp (home_step (StreamEnd i d) s) = Inl OBJECT_CHILD_ERROR"
proof -
  have "selectedFile (home_step (StreamEnd i d) s) = Some (file_node_of f)"
       "rightPanel (home_step (StreamEnd i d) s) = CodePanel"
    using assms by (simp_all add: home_step_def turn_end_def turn_finally_def Let_def updateCurrentProject_def persist_def
        split: option.split)
  then show ?thesis using assms(5)
    by (simp add: page_view_def right_panel_def CodePreview_def code_language_def lang_child_def file_node_of_def Let_def)
qed

theorem proto_file_crashes_page_witness:
  "running ((home_init None)\<lparr>isStreaming := True, running := Some \<lparr>t_files = [], t_messages = [], t_pid = None, t_model = [],
      t_phase = Reading [] \<lparr>assistantContent = proto_block, live = []\<rparr>\<rparr>\<rparr>) =
     Some \<lparr>t_files = [], t_messages = [], t_pid = None, t_model = [], t_phase = Reading [] \<lparr>assistantContent = proto_block, live = []\<rparr>\<rparr> \<and>
   page_view (\<lambda>x. Some x) False \<lparr>lp_error = None, reloadKey = 0\<rparr>
     (home_step (StreamEnd ''p'' ''d'') ((home_init None)\<lparr>isStreaming := True, running := Some \<lparr>t_files = [], t_messages = [],
        t_pid = None, t_model = [], t_phase = Reading [] \<lparr>assistantContent = proto_block, live = []\<rparr>\<rparr>\<rparr>)) = Inl OBJECT_CHILD_ERROR"
proof -
  let ?t = "\<lparr>t_files = [], t_messages = [], t_pid = None, t_model = [], t_phase = Reading [] \<lparr>assistantContent = proto_block, live = []\<rparr>\<rparr>"
  let ?s = "(home_init None)\<lparr>isStreaming := True, running := Some ?t\<rparr>"
  have h1: "running ?s = Some ?t" by simp
  have h2: "t_phase ?t = Reading [] \<lparr>assistantContent = proto_block, live = []\<rparr>" by simp
  have h3: "rightPanel ?s = CodePanel" by (simp add: home_init_def)
  have h4: "parseFilesFromResponse (assistantContent \<lparr>assistantContent = proto_block, live = []\<rparr>) =
      \<lparr>path = ''x.__proto__'', content = ''v1'', language = Inherited ''__proto__''\<rparr> # []"
    by (simp add: proto_block_parse)
  have h5: "language \<lparr>path = ''x.__proto__'', content = ''v1'', language = Inherited ''__proto__''\<rparr> = Inherited ''__proto__''"
    by simp
  from proto_file_crashes_page [OF h1 h2 h3 h4 h5, of "\<lambda>x. Some x" False "\<lparr>lp_error = None, reloadKey = 0\<rparr>" "''p''" "''d''"] h1
  show ?thesis by blast
qed

theorem artifacts_gone_after_switch_witness:
  "running ((home_init None)\<lparr>projects := [\<lparr>pid = ''p'', pname = ''x'', files = [], pmessages = [], createdAt = ''d''\<rparr>],
      currentProjectId := Some ''p'', isStreaming := True, running := Some (demo_turn (Some ''p''))\<rparr>) = Some (demo_turn (Some ''p'')) \<and>
   find (\<lambda>q. pid q = ''p'') [\<lparr>pid = ''p'', pname = ''x'', files = [], pmessages = [], createdAt = ''d''\<rparr>] \<noteq> None \<and>
   last (message_list (home_run [StreamEnd ''i'' ''d'', SwitchProject ''p'']
     ((home_init None)\<lparr>projects := [\<lparr>pid = ''p'', pname = ''x'', files = [], pmessages = [], createdAt = ''d''\<rparr>],
      currentProjectId := Some ''p'', isStreaming := True, running := Some (demo_turn (Some ''p''))\<rparr>))) =
     Row False [Text (stripFileBlocks demo_block)]"
proof -
  let ?s = "(home_init None)\<lparr>projects := [\<lparr>pid = ''p'', pname = ''x'', files = [], pmessages = [], createdAt = ''d''\<rparr>],
      currentProjectId := Some ''p'', isStreaming := True, running := Some (demo_turn (Some ''p''))\<rparr>"
  have h1: "running ?s = Some (demo_turn (Some ''p''))" by simp
  have h2: "t_phase (demo_turn (Some ''p'')) = Reading [] \<lparr>assistantContent = demo_block, live = []\<rparr>" by simp
  have h3: "t_pid (demo_turn (Some ''p'')) = Some ''p''" by simp
  have h4: "find (\<lambda>q. pid q = ''p'') (projects ?s) \<noteq> None" by simp
  from artifacts_gone_after_switch [OF h1 h2 h3 h4, of "''i''" "''d''"] h1 h4
  show ?thesis by simp
qed

text \<open>The catch of \<open>generateSrcDoc\<close> is never reached, so the preview never shows
  \<open>Deployment Failed\<close> and its retry.\<close>

lemma live_preview_no_failure: "Text ''Deployment Failed'' \<notin> set (snd (live_preview_render tr fs st))"
  by (simp add: live_preview_render_def Let_def)

text \<open>A recognized phrase is appended to the input after a space, and the recording
  ends; clicking the microphone between the result and the end of the recognition
  throws.\<close>

lemma voice_transcript:
  "voice_run [ToggleRecording, RecResult x, RecEnd] (s, voice_init True) =
     Inr (home_step (SetInput (transcript_input (input s) x)) s, voice_init True)"
  by (simp add: voice_init_def)

lemma voice_click_before_end:
  "voice_run [ToggleRecording, RecResult x, ToggleRecording] (s, voice_init True) = Inl ''InvalidStateError''"
  by (simp add: voice_init_def)

text \<open>Two copies in a row: the first timer resets the label while the second is
  pending.\<close>

lemma copy_label_early_reset:
  "copied (copy_step CopyTimeout (copy_step (CopyCode b) (copy_step (CopyCode a) st))) = False \<and>
   timers (copy_step CopyTimeout (copy_step (CopyCode b) (copy_step (CopyCode a) st))) = Suc (timers st)"
  by simp

text \<open>Viewing an artifact whose file is not in \<open>allFiles\<close> (a new file while the
  answer streams) shows its code, but the download button of the view does nothing.\<close>

lemma artifact_download_missing:
  assumes "find (\<lambda>f. path f = art_path a) (allFiles s) = None"
  shows "code_download (home_run [SelectFile (artifact_node a), SetPanel CodePanel] s) = None"
  using assms by (simp add: home_run_def home_step_def code_download_def artifact_node_def Let_def persist_def)

end
