(* ===== verification/Landing.thy ===== *)
theory Landing
  imports Prelude
begin

text \<open>
  The landing page sections with behaviour: \<open>Benchmarks\<close>
  (\<open>src/src/components/sections/benchmarks.tsx\<close>) renders two cards of rows from
  literal data, and \<open>HeroSection\<close> (\<open>hero.tsx\<close>) renders a line of app-type tags, each
  showing a demo video while hovered, and a chat box whose submit button is enabled by
  its text.  A rendered list is modelled by its items in order; styling is not.  The
  other sections (header, footer, the video and feature sections) are static markup.
\<close>

subsection \<open>Lists with separators\<close>

datatype 'a item = Item 'a | Sep

text \<open>\<open>xs.map((x, idx) => <>{x}{idx < xs.length - 1 && separator}</>)\<close>, as the code
  writes it, and the same list by structural recursion.\<close>

definition with_seps :: "'a list \<Rightarrow> 'a item list" where
  "with_seps xs = concat (map (\<lambda>(idx, x). Item x # (if idx < length xs - 1 then [Sep] else [])) (enumerate 0 xs))"

fun interleave_sep :: "'a list \<Rightarrow> 'a item list" where
  "interleave_sep [] = []"
| "interleave_sep [x] = [Item x]"
| "interleave_sep (x # y # zs) = Item x # Sep # interleave_sep (y # zs)"

subsection \<open>Benchmarks\<close>

text \<open>\<open>value: number | string\<close>; a number by the text \<open>String(value)\<close> gives.\<close>

datatype bench_value = BNum string | BStr string

record bench_row =
  row_label :: string
  row_value :: bench_value
  percentage :: nat
  isPrimary :: bool

text \<open>What \<open>BenchmarkRow\<close> shows: the label, a bar of \<open>percentage\<close> percent, and the value
  followed by \<open>typeof value === 'number' && label === 'Orchids' ? '%' :
  (typeof value === 'number' ? '%' : '')\<close>.\<close>

definition value_text :: "string \<Rightarrow> bench_value \<Rightarrow> string" where
  "value_text label v =
     (case v of
        BNum n \<Rightarrow> n @ (if label = ''Orchids'' then ''%'' else ''%'')
      | BStr s \<Rightarrow> s @ [])"

definition BenchmarkRow :: "bench_row \<Rightarrow> string \<times> nat \<times> string \<times> bool" where
  "BenchmarkRow r = (row_label r, percentage r, value_text (row_label r) (row_value r), isPrimary r)"

record bench_card =
  card_title :: string
  card_link :: string
  card_data :: "bench_row list"
  footerLabels :: "string list"
  footerUnit :: string

text \<open>\<open>BenchmarkCard\<close>: the title, the link, the rows with a divider between two
  rows, and the footer with its unit and labels.\<close>

definition BenchmarkCard ::
  "bench_card \<Rightarrow> string \<times> string \<times> (string \<times> nat \<times> string \<times> bool) item list \<times> string \<times> string list" where
  "BenchmarkCard c = (card_title c, card_link c, with_seps (map BenchmarkRow (card_data c)), footerUnit c, footerLabels c)"

definition row :: "string \<Rightarrow> bench_value \<Rightarrow> nat \<Rightarrow> bench_row" where
  "row l v p = \<lparr>row_label = l, row_value = v, percentage = p, isPrimary = False\<rparr>"

definition appBenchData :: "bench_row list" where
  "appBenchData =
     [(row ''Orchids'' (BNum ''76'') 76)\<lparr>isPrimary := True\<rparr>, row ''Claude Code'' (BNum ''68'') 68,
      row ''v0'' (BNum ''64'') 64, row ''Bolt'' (BNum ''54'') 54, row ''Google AI Studio'' (BNum ''50'') 50,
      row ''Codex CLI'' (BNum ''38'') 38, row ''Replit'' (BNum ''34'') 34, row ''Cursor'' (BNum ''27'') 27,
      row ''Lovable'' (BNum ''25'') 25, row ''Gemini CLI'' (BNum ''0'') 2]"

definition uiBenchData :: "bench_row list" where
  "uiBenchData =
     [(row ''Orchids'' (BNum ''30.08'') 95)\<lparr>isPrimary := True\<rparr>, row ''Figma Make'' (BNum ''27.46'') 86,
      row ''Lovable'' (BNum ''27.14'') 84, row ''Anything'' (BNum ''25.46'') 78, row ''Bolt'' (BNum ''24.44'') 74,
      row ''Magic Patterns'' (BNum ''24.23'') 73, row ''Same.new'' (BNum ''23.57'') 70, row ''Base44'' (BNum ''23.47'') 69,
      row ''v0'' (BNum ''22.24'') 64, row ''Replit'' (BNum ''20.95'') 58]"

text \<open>The two cards of \<open>Benchmarks\<close> (the UI Bench card reuses the App Bench link).\<close>

definition benchmark_cards :: "bench_card list" where
  "benchmark_cards =
     [\<lparr>card_title = ''#1 on App Bench'', card_link = ''https://appbench.ai'', card_data = appBenchData,
       footerLabels = [''0%'', ''20%'', ''40%'', ''60%'', ''80%''], footerUnit = ''Score''\<rparr>,
      \<lparr>card_title = ''#1 on UI Bench'', card_link = ''https://appbench.ai'', card_data = uiBenchData,
       footerLabels = [''20'', ''24'', ''28'', ''32''], footerUnit = ''Score''\<rparr>]"

subsection \<open>Hero\<close>

record app_type =
  at_label :: string
  at_color :: string
  at_textColor :: "string option"
  at_video :: "string option"

definition VIDEO_BASE :: string where
  "VIDEO_BASE = ''https://slelguoygbfzlpylpxfs.supabase.co/storage/v1/object/public/hero-assets/''"

definition APP_TYPES :: "app_type list" where
  "APP_TYPES =
     [\<lparr>at_label = ''apps'', at_color = ''bg-blue-500'', at_textColor = None, at_video = Some (VIDEO_BASE @ ''hero-appdemo.mp4'')\<rparr>,
      \<lparr>at_label = ''games'', at_color = ''bg-purple-500'', at_textColor = None, at_video = Some (VIDEO_BASE @ ''hero-gamedemo.mp4'')\<rparr>,
      \<lparr>at_label = ''tools'', at_color = ''bg-orange-500'', at_textColor = None, at_video = Some (VIDEO_BASE @ ''hero-tooldemo.mp4'')\<rparr>,
      \<lparr>at_label = ''websites'', at_color = ''bg-green-500'', at_textColor = None, at_video = Some (VIDEO_BASE @ ''hero-website.mp4'')\<rparr>,
      \<lparr>at_label = ''UI'', at_color = ''bg-pink-500'', at_textColor = None, at_video = Some (VIDEO_BASE @ ''hero-uidemo.mp4'')\<rparr>,
      \<lparr>at_label = ''anything'', at_color = ''bg-yellow-400'', at_textColor = Some ''text-black'', at_video = None\<rparr>]"

text \<open>\<open>TagWithVideo\<close>: its state \<open>isHovered\<close>, set by the mouse entering and leaving the
  tag; it shows its label with the colours \<open>tag.color\<close> and \<open>tag.textColor || "text-white"\<close>,
  and the video above it while hovered, if it has one.\<close>

datatype hover_event = MouseEnter | MouseLeave

definition tag_hover :: "hover_event \<Rightarrow> bool \<Rightarrow> bool" where
  "tag_hover e h = (case e of MouseEnter \<Rightarrow> True | MouseLeave \<Rightarrow> False)"

definition TagWithVideo :: "app_type \<Rightarrow> bool \<Rightarrow> string option \<times> string \<times> string \<times> string" where
  "TagWithVideo t isHovered =
     ((case at_video t of Some v \<Rightarrow> if v \<noteq> [] \<and> isHovered then Some v else None | None \<Rightarrow> None),
      at_label t, at_color t, (case at_textColor t of Some c \<Rightarrow> if c \<noteq> [] then c else ''text-white'' | None \<Rightarrow> ''text-white''))"

text \<open>The tag line of \<open>HeroSection\<close> (lines 125--134), each tag with its hover state,
  separated by commas.\<close>

definition hero_tag_line :: "(string \<Rightarrow> bool) \<Rightarrow> (string option \<times> string \<times> string \<times> string) item list" where
  "hero_tag_line hovered = with_seps (map (\<lambda>t. TagWithVideo t (hovered (at_label t))) APP_TYPES)"

text \<open>The chat box: the textarea holds \<open>chatValue\<close>; the submit button is disabled
  when \<open>!chatValue\<close> and has no click handler.\<close>

datatype hero_event = ChatInput string | SubmitClick

definition hero_step :: "hero_event \<Rightarrow> string \<Rightarrow> string" where
  "hero_step e chatValue = (case e of ChatInput v \<Rightarrow> v | SubmitClick \<Rightarrow> chatValue)"

definition submit_enabled :: "string \<Rightarrow> bool" where
  "submit_enabled chatValue \<longleftrightarrow> chatValue \<noteq> []"

subsection \<open>Properties\<close>

lemma enumerate_Suc_map: "enumerate (Suc n) xs = map (\<lambda>(i, x). (Suc i, x)) (enumerate n xs)"
  by (induction xs arbitrary: n) auto

lemma with_seps_Cons:
  "with_seps (x # xs) = Item x # (if xs = [] then [] else Sep # with_seps xs)"
proof -
  have "concat (map (\<lambda>(idx, y). Item y # (if idx < length (x # xs) - 1 then [Sep] else [])) (enumerate 1 xs)) =
        concat (map (\<lambda>(idx, y). Item y # (if idx < length xs - 1 then [Sep] else [])) (enumerate 0 xs))"
    by (auto simp: enumerate_Suc_map [of 0, simplified] comp_def case_prod_beta intro!: arg_cong [where f = concat] map_cong)
  then show ?thesis by (cases xs) (simp_all add: with_seps_def)
qed

text \<open>The index test of the code places exactly one separator between two neighbours.\<close>

theorem with_seps_interleave: "with_seps xs = interleave_sep xs"
  by (induction xs rule: interleave_sep.induct) (simp_all add: with_seps_Cons, simp add: with_seps_def)

lemma value_text_number: "value_text l (BNum n) = n @ ''%''"
  by (simp add: value_text_def)

text \<open>Every number is shown with a percent sign whatever the label, also the UI Bench
  scores, whose axis runs from 20 to 32.\<close>

theorem ui_bench_percent:
  "map (\<lambda>r. value_text (row_label r) (row_value r)) uiBenchData =
     [''30.08%'', ''27.46%'', ''27.14%'', ''25.46%'', ''24.44%'', ''24.23%'', ''23.57%'', ''23.47%'', ''22.24%'', ''20.95%'']"
  by (simp add: uiBenchData_def row_def value_text_number)

text \<open>Only the hovered tag with a video shows one; the last tag has none.\<close>

theorem tag_video_hover:
  "fst (TagWithVideo t (tag_hover MouseLeave h)) = None \<and>
   fst (TagWithVideo t (tag_hover MouseEnter h)) = (case at_video t of Some v \<Rightarrow> if v \<noteq> [] then Some v else None | None \<Rightarrow> None)"
  by (simp add: TagWithVideo_def tag_hover_def split: option.split)

text \<open>A chat text of spaces enables the submit button, and clicking it changes
  nothing.\<close>

theorem hero_submit_inert: "submit_enabled '' '' \<and> hero_step SubmitClick v = v"
  by (simp add: submit_enabled_def hero_step_def)

end
