(* ===== verification/Sections.thy ===== *)
theory Sections
  imports Landing
begin

text \<open>
  The static sections of the landing page under \<open>src/src/components/sections/\<close>:
  the header, the footer, the feature sections and the hero around its tag line and
  chat box (whose state is in \<open>Landing\<close>).  A section is the list of the elements it
  renders, in document order: headings, paragraphs, links with their targets,
  buttons, media, and the parts shown only below or only from the \<open>md\<close> breakpoint
  (\<open>md:hidden\<close>, \<open>hidden md:flex\<close>).  None of their buttons has a click handler, so a
  button is its label (or its \<open>aria-label\<close>) and whether it is enabled.  Styling is
  not modelled.
\<close>

datatype viewport = Narrow | Wide

datatype el =
    Heading string
  | Para string
  | Link string string
  | Btn string bool
  | Video string
  | Picture string string
  | Field string string
  | Tag "string option" string
  | Only viewport "el list"

text \<open>The elements a viewport shows.\<close>

fun visible :: "viewport \<Rightarrow> el list \<Rightarrow> el list" where
  "visible v [] = []"
| "visible v (Only w es # rest) = (if v = w then visible v es else []) @ visible v rest"
| "visible v (e # rest) = e # visible v rest"

fun link_targets :: "el list \<Rightarrow> string list" where
  "link_targets [] = []"
| "link_targets (Link l h # rest) = h # link_targets rest"
| "link_targets (Only w es # rest) = link_targets es @ link_targets rest"
| "link_targets (e # rest) = link_targets rest"

subsection \<open>Header and footer\<close>

definition CAREERS_URL :: string where
  "CAREERS_URL = ''https://grove-jelly-78f.notion.site/Work-at-Orchids-22b0af79f8e4800998d7ea5f902455e4''"

text \<open>\<open>Header\<close> (\<open>header.tsx\<close> lines 9--96): the logo linking home, the central links
  from \<open>md\<close> up, the split download button, sign-in from \<open>md\<close> up, and below \<open>md\<close> the
  menu trigger.\<close>

definition Header :: "el list" where
  "Header =
     [Link ''orchids'' ''/'',
      Only Wide [Link ''Docs'' ''https://docs.orchids.app'', Btn ''Pricing'' True, Link ''Enterprise'' ''/enterprise'',
                 Link ''Careers'' CAREERS_URL],
      Btn ''Download for Linux'' True, Btn ''More download options'' True,
      Only Wide [Btn ''Sign in'' True],
      Only Narrow [Btn ''Open menu'' True]]"

text \<open>\<open>Footer\<close> (\<open>footer.tsx\<close> lines 4--122), with \<open>currentYear = 2026\<close> in the
  copyright line (whose first character is U+00A9).\<close>

definition Footer :: "el list" where
  "Footer =
     [Link ''orchids'' ''/'',
      Heading ''Company'', Link ''Enterprise'' ''/enterprise'', Btn ''Pricing'' True, Link ''Careers'' CAREERS_URL,
      Link ''Privacy Policy'' ''/privacy'', Link ''Terms of Service'' ''/terms'',
      Heading ''Resources'', Link ''Docs'' ''https://docs.orchids.app'',
      Heading ''Community'', Link ''Discord'' ''#'', Link ''X'' ''#'', Link ''LinkedIn'' ''#'',
      Para (CHR 0xA9 # '' 2026 Orchids. All rights reserved.'')]"

subsection \<open>Feature sections\<close>

definition HERO_ASSETS :: string where
  "HERO_ASSETS = ''https://slelguoygbfzlpylpxfs.supabase.co/storage/v1/object/public/hero-assets/''"

text \<open>\<open>ChatToBuildSection\<close> (\<open>chat-to-build.tsx\<close> lines 10--63).\<close>

definition ChatToBuildSection :: "el list" where
  "ChatToBuildSection =
     [Heading ''Chat to build'', Para ''Ask Orchids to build, edit, and fix.'',
      Btn ''Download for free'' True, Btn ''More options'' True, Video (HERO_ASSETS @ ''hero-chatbuild-compressed.mp4'')]"

text \<open>\<open>CTAFree\<close> (\<open>cta-free.tsx\<close> lines 9--56).\<close>

definition CTAFree :: "el list" where
  "CTAFree = [Heading ''Try for free'', Btn ''Download for Linux'' True, Btn ''More download options'' True]"

text \<open>\<open>ScreenVoiceSection\<close> (\<open>screen-voice.tsx\<close> lines 4--50).\<close>

definition ScreenVoiceSection :: "el list" where
  "ScreenVoiceSection =
     [Video (HERO_ASSETS @ ''hero-record-compressed.mp4''),
      Heading ''Orchids can see your screen and hear your voice'', Para ''Works just like a human developer.'',
      Btn ''Download for free'' True, Btn ''More download options'' True]"

text \<open>\<open>SelectElements\<close> (\<open>select-elements.tsx\<close> lines 13--76).\<close>

definition SelectElements :: "el list" where
  "SelectElements =
     [Heading ''Built-in browser'', Para ''Select and grab any UI element on the web.'',
      Btn ''Download for free'' True, Btn ''More options'' True, Video (HERO_ASSETS @ ''hero-select-compressed.mp4'')]"

text \<open>\<open>BuildFullStackApps\<close> (\<open>full-stack-apps.tsx\<close> lines 11--71).\<close>

definition BuildFullStackApps :: "el list" where
  "BuildFullStackApps =
     [Heading ''Build full-stack apps'',
      Para ''Orchids natively supports Supabase and Stripe for auth, database, and payments.'',
      Btn ''Download for free'' True, Btn ''More options'' True,
      Picture ''https://slelguoygbfzlpylpxfs.supabase.co/storage/v1/object/public/test-clones/73d57872-771a-4961-af92-b0e3d7a9c0d3-orchids-app/assets/images/images_1.png''
              ''Orchids interface showing Supabase and Stripe integration settings'']"

text \<open>\<open>BuiltInBrowserSection\<close> (\<open>built-in-browser.tsx\<close> lines 9--73).\<close>

definition BuiltInBrowserSection :: "el list" where
  "BuiltInBrowserSection =
     [Heading ''Built-in browser'', Para ''Select and grab any UI element on the web.'',
      Btn ''Download for free'' True, Btn ''More download options'' True, Video (HERO_ASSETS @ ''hero-browser-compressed.mp4'')]"

subsection \<open>Hero\<close>

text \<open>\<open>HeroSection\<close> (\<open>hero.tsx\<close> lines 91--203) with the hover state of each tag and
  \<open>chatValue\<close>: the download button, the title, the tag line (its lead-in differs
  below \<open>md\<close>), the model badge (the rest of its label after \<open>4.6\<close> is text outside
  the 8-bit model), and the chat box, whose submit button is enabled by a non-empty
  text.\<close>

definition tag_line_el :: "(string option \<times> string \<times> string \<times> string) item \<Rightarrow> el" where
  "tag_line_el it = (case it of Item (v, l, c, t) \<Rightarrow> Tag v l | Sep \<Rightarrow> Para '','')"

definition HeroSection :: "(string \<Rightarrow> bool) \<Rightarrow> string \<Rightarrow> el list" where
  "HeroSection hovered chatValue =
     [Btn ''Download for Linux'' True, Btn ''More download options'' True, Heading ''The AI App Builder'',
      Only Wide [Para ''The best way to build ''], Only Narrow [Para ''Build '']]
     @ map tag_line_el (hero_tag_line hovered)
     @ [Para ''with AI'', Btn ''Try Claude Opus 4.6'' True,
        Field chatValue ''Ask Orchids to build anything...'',
        Btn ''Auto'' True, Btn ''Tools'' True, Btn ''Attach files'' True, Btn ''Submit'' (submit_enabled chatValue)]"

subsection \<open>The routes of the app\<close>

text \<open>The routes of the Next.js app directory: \<open>src/src/app/page.tsx\<close> is \<open>/\<close> and
  \<open>src/src/app/api/chat/route.ts\<close> is \<open>/api/chat\<close>; there are no others.\<close>

definition APP_ROUTES :: "string list" where
  "APP_ROUTES = [''/'', ''/api/chat'']"

subsection \<open>Properties\<close>

text \<open>Below the \<open>md\<close> breakpoint the header links only to the home page: Docs,
  Enterprise and Careers are hidden, and the menu trigger shown instead has no
  handler.\<close>

theorem header_narrow_links:
  "link_targets (visible Narrow Header) = [''/''] \<and> Btn ''Open menu'' True \<in> set (visible Narrow Header) \<and>
   link_targets (visible Wide Header) = [''/'', ''https://docs.orchids.app'', ''/enterprise'', CAREERS_URL]"
  by (simp add: Header_def)

text \<open>The site-internal links of the header and the footer that name no route of
  the app.\<close>

theorem internal_links_unrouted:
  "filter (\<lambda>h. prefix ''/'' h \<and> h \<notin> set APP_ROUTES) (link_targets (Header @ Footer)) =
     [''/enterprise'', ''/enterprise'', ''/privacy'', ''/terms'']"
  by (simp add: Header_def Footer_def APP_ROUTES_def CAREERS_URL_def)

text \<open>The community links of the footer are placeholders.\<close>

theorem footer_placeholder_links:
  "filter (\<lambda>h. h = ''#'') (link_targets Footer) = [''#'', ''#'', ''#'']"
  by (simp add: Footer_def CAREERS_URL_def)

text \<open>Two sections render the same title and text under the label of the built-in
  browser.\<close>

theorem duplicate_browser_sections:
  "take 3 SelectElements = take 3 BuiltInBrowserSection \<and> SelectElements \<noteq> BuiltInBrowserSection"
  by (simp add: SelectElements_def BuiltInBrowserSection_def HERO_ASSETS_def)

end
