(* ===== verification/Json_Fuel.thy ===== *)
theory Json_Fuel
  imports Json
begin

text \<open>
  Termination of the JSON reader.  \<open>parse_value\<close>, \<open>parse_elems\<close> and
  \<open>parse_members\<close> of \<open>Json\<close> recur on a fuel bound where the recursive descent of
  \<open>JSON.parse\<close> recurs on the text.  This theory shows that every successful call
  consumes at least one character and that fuel equal to the number of characters it
  consumes is enough, so the fuel \<open>length s\<close> of \<open>JSON_parse\<close> never cuts a parse
  short: the fuel-bounded definition computes the total function of the standard.
\<close>

subsection \<open>Shapes of a successful step\<close>

lemma parse_chars_shorter: "parse_chars s = Some (x, r) \<Longrightarrow> length r < length s"
proof (induction "length s" arbitrary: s x r rule: less_induct)
  case less
  then obtain c cs where s: "s = c # cs" by (cases s) auto
  have ih: "parse_chars t = Some (y, r) \<Longrightarrow> length t \<le> length cs \<Longrightarrow> length r < Suc (length cs)" for t y
    using less.hyps [of t y r] s by fastforce
  show ?case
  proof (cases "c = DQ \<or> c \<noteq> BSL")
    case True
    then show ?thesis using less.prems s ih [of cs]
      by (auto split: if_splits simp: map_option_eq_Some)
  next
    case False
    then obtain e es where cs: "cs = e # es" using less.prems s by (cases cs) auto
    show ?thesis using less.prems s cs False ih [of es] ih [of "drop 4 es"]
      by (auto split: if_splits option.splits simp: map_option_eq_Some)
  qed
qed

lemma scan_number_app: "scan_number s = Some (m, r) \<Longrightarrow> s = m @ r \<and> m \<noteq> []"
proof -
  assume a: "scan_number s = Some (m, r)"
  obtain sg s1 where sg: "(case s of c # r \<Rightarrow> if c = CHR ''-'' then ([c], r) else ([], s) | [] \<Rightarrow> ([], s)) = (sg, s1)"
    by fastforce
  from a sg have "do { (i, s2) \<leftarrow> scan_int s1; (f, s3) \<leftarrow> scan_frac s2; (e, s4) \<leftarrow> scan_exp s3;
      Some (sg @ i @ f @ e, s4) } = Some (m, r)"
    by (simp add: scan_number_def)
  then obtain i s2 f s3 e where p: "scan_int s1 = Some (i, s2)" "scan_frac s2 = Some (f, s3)"
      "scan_exp s3 = Some (e, r)" "m = sg @ i @ f @ e"
    by (auto simp: bind_eq_Some_conv)
  have "s1 = i @ f @ e @ r" using scan_int_app [OF p(1)] scan_frac_app [OF p(2)] scan_exp_app [OF p(3)] by simp
  moreover have "s = sg @ s1" using sg by (cases s) (auto split: if_splits)
  ultimately show ?thesis using p(4) scan_int_not_Nil [OF p(1)] by simp
qed

lemma scan_number_shorter: "scan_number s = Some (m, r) \<Longrightarrow> length r < length s"
  using scan_number_app [of s m r] by auto

lemma parse_value_SucE:
  assumes "parse_value (Suc n) s = Some (v, r)"
  shows "((\<forall>m. parse_value (Suc m) s = Some (v, r)) \<and> length r < length s) \<or>
    (\<exists>t kvs. length t < length s \<and> parse_members n [] t = Some (kvs, r) \<and>
       (\<forall>m x. parse_members m [] t = Some x \<longrightarrow> parse_value (Suc m) s = Some (JObj (fst x), snd x)) \<and> v = JObj kvs) \<or>
    (\<exists>t vs. length t < length s \<and> parse_elems n [] t = Some (vs, r) \<and>
       (\<forall>m x. parse_elems m [] t = Some x \<longrightarrow> parse_value (Suc m) s = Some (JArr (fst x), snd x)) \<and> v = JArr vs)"
proof -
  from assms obtain c t where sk: "skip_ws s = c # t" by (cases "skip_ws s") auto
  have lt: "length t < length s" using length_dropWhile_le [of is_json_ws s] sk by simp
  consider (brace) "c = CHR ''{''" | (bracket) "c = CHR ''[''" | (atom) "c \<noteq> CHR ''{''" "c \<noteq> CHR ''[''" by blast
  then show ?thesis
  proof cases
    case brace
    then obtain x r' where t: "skip_ws t = x # r'" using assms sk by (cases "skip_ws t") auto
    show ?thesis
    proof (cases "x = CHR ''}''")
      case True
      then show ?thesis using assms sk brace t lt length_dropWhile_le [of is_json_ws t] by simp
    next
      case False
      then show ?thesis using assms sk brace t lt by (auto simp: map_option_eq_Some)
    qed
  next
    case bracket
    then obtain x r' where t: "skip_ws t = x # r'" using assms sk by (cases "skip_ws t") auto
    show ?thesis
    proof (cases "x = CHR '']''")
      case True
      then show ?thesis using assms sk bracket t lt length_dropWhile_le [of is_json_ws t] by simp
    next
      case False
      then show ?thesis using assms sk bracket t lt by (auto simp: map_option_eq_Some)
    qed
  next
    case atom
    with assms sk have "parse_value (Suc m) s = Some (v, r)" for m by simp
    moreover have "length r < length s"
      using assms sk lt atom
      by (auto split: if_splits simp: map_option_eq_Some dest!: parse_chars_shorter scan_number_shorter)
    ultimately show ?thesis by blast
  qed
qed

lemma parse_elems_SucE:
  assumes "parse_elems (Suc n) acc s = Some (vs, r)"
  obtains v r1 where "parse_value n s = Some (v, r1)"
    "(\<exists>r'. skip_ws r1 = CHR '']'' # r' \<and> r = r' \<and> vs = acc @ [v]) \<or>
     (\<exists>r''. skip_ws r1 = CHR '','' # r'' \<and> parse_elems n (acc @ [v]) r'' = Some (vs, r))"
proof -
  from assms obtain v r1 where pv: "parse_value n s = Some (v, r1)"
    and rest: "(case skip_ws r1 of x # r' \<Rightarrow> if x = CHR '','' then parse_elems n (acc @ [v]) r'
                  else if x = CHR '']'' then Some (acc @ [v], r') else None | [] \<Rightarrow> None) = Some (vs, r)"
    by (cases "parse_value n s") auto
  obtain x r' where sk: "skip_ws r1 = x # r'" using rest by (cases "skip_ws r1") auto
  show ?thesis
  proof (rule that [OF pv])
    show "(\<exists>r'. skip_ws r1 = CHR '']'' # r' \<and> r = r' \<and> vs = acc @ [v]) \<or>
     (\<exists>r''. skip_ws r1 = CHR '','' # r'' \<and> parse_elems n (acc @ [v]) r'' = Some (vs, r))"
      using rest sk by (simp split: if_splits)
  qed
qed

lemma parse_members_SucE2:
  assumes P: "parse_members (Suc n) acc s = Some (kvs, r)"
  obtains k r1 r0 r2 v r3 where "skip_ws s = DQ # r1" "parse_chars r1 = Some (k, r0)" "skip_ws r0 = CHR '':'' # r2"
    "parse_value n r2 = Some (v, r3)"
    "(\<exists>r'. skip_ws r3 = CHR ''}'' # r' \<and> r = r' \<and> kvs = acc @ [(k, v)]) \<or>
     (\<exists>r4. skip_ws r3 = CHR '','' # r4 \<and> parse_members n (acc @ [(k, v)]) r4 = Some (kvs, r))"
proof -
  from P obtain c r1 where sk1: "skip_ws s = c # r1" by (cases "skip_ws s") auto
  from P sk1 have c: "c = DQ" by (cases "c = DQ") simp_all
  from P sk1 c obtain k r0 where pc: "parse_chars r1 = Some (k, r0)"
    by (cases "parse_chars r1") auto
  from P sk1 c pc obtain x r2 where sk2: "skip_ws r0 = x # r2" by (cases "skip_ws r0") auto
  from P sk1 c pc sk2 have x: "x = CHR '':''" by (cases "x = CHR '':''") simp_all
  from P sk1 c pc sk2 x obtain v r3 where pv: "parse_value n r2 = Some (v, r3)"
    by (cases "parse_value n r2") auto
  from P sk1 c pc sk2 x pv obtain y r4 where sk3: "skip_ws r3 = y # r4" by (cases "skip_ws r3") auto
  show ?thesis
  proof (rule that [OF sk1 [unfolded c] pc sk2 [unfolded x] pv])
    show "(\<exists>r'. skip_ws r3 = CHR ''}'' # r' \<and> r = r' \<and> kvs = acc @ [(k, v)]) \<or>
     (\<exists>r4. skip_ws r3 = CHR '','' # r4 \<and> parse_members n (acc @ [(k, v)]) r4 = Some (kvs, r))"
      using P sk1 c pc sk2 x pv sk3 by (simp split: if_splits)
  qed
qed

subsection \<open>Fuel\<close>

text \<open>Each call that succeeds consumes input, and fuel of the length it consumes is
  enough, by induction on the fuel for the three functions at once.\<close>

lemma parse_value_fuel_step:
  assumes E: "\<And>acc t vs r. parse_elems n acc t = Some (vs, r) \<Longrightarrow>
      length r < length t \<and> (\<forall>m. length t - length r \<le> m \<longrightarrow> parse_elems m acc t = Some (vs, r))"
    and M: "\<And>acc t kvs r. parse_members n acc t = Some (kvs, r) \<Longrightarrow>
      length r < length t \<and> (\<forall>m. length t - length r \<le> m \<longrightarrow> parse_members m acc t = Some (kvs, r))"
    and P: "parse_value (Suc n) s = Some (v, r)"
  shows "length r < length s \<and> (\<forall>m. length s - length r \<le> m \<longrightarrow> parse_value m s = Some (v, r))"
  using parse_value_SucE [OF P]
proof (elim disjE exE conjE)
  assume all: "\<forall>m. parse_value (Suc m) s = Some (v, r)" and lt: "length r < length s"
  have "parse_value m s = Some (v, r)" if "length s - length r \<le> m" for m
    using that lt all by (cases m) auto
  with lt show ?thesis by blast
next
  fix t kvs
  assume t: "length t < length s" "parse_members n [] t = Some (kvs, r)"
    and lift: "\<forall>m x. parse_members m [] t = Some x \<longrightarrow> parse_value (Suc m) s = Some (JObj (fst x), snd x)"
    and v: "v = JObj kvs"
  from M [OF t(2)] have lr: "length r < length t"
    and F: "\<forall>m. length t - length r \<le> m \<longrightarrow> parse_members m [] t = Some (kvs, r)" by blast+
  have "parse_value m s = Some (v, r)" if "length s - length r \<le> m" for m
  proof (cases m)
    case (Suc m')
    with that t lr have "length t - length r \<le> m'" by simp
    with F lift v Suc show ?thesis by fastforce
  qed (use that t lr in simp)
  with t lr show ?thesis by simp
next
  fix t vs
  assume t: "length t < length s" "parse_elems n [] t = Some (vs, r)"
    and lift: "\<forall>m x. parse_elems m [] t = Some x \<longrightarrow> parse_value (Suc m) s = Some (JArr (fst x), snd x)"
    and v: "v = JArr vs"
  from E [OF t(2)] have lr: "length r < length t"
    and F: "\<forall>m. length t - length r \<le> m \<longrightarrow> parse_elems m [] t = Some (vs, r)" by blast+
  have "parse_value m s = Some (v, r)" if "length s - length r \<le> m" for m
  proof (cases m)
    case (Suc m')
    with that t lr have "length t - length r \<le> m'" by simp
    with F lift v Suc show ?thesis by fastforce
  qed (use that t lr in simp)
  with t lr show ?thesis by simp
qed

lemma skip_ws_Cons_shorter: "skip_ws t = x # t' \<Longrightarrow> length t' < length t"
  using length_dropWhile_le [of is_json_ws t] by simp

lemma parse_elems_fuel_step:
  assumes V: "\<And>t v r. parse_value n t = Some (v, r) \<Longrightarrow>
      length r < length t \<and> (\<forall>m. length t - length r \<le> m \<longrightarrow> parse_value m t = Some (v, r))"
    and E: "\<And>acc t vs r. parse_elems n acc t = Some (vs, r) \<Longrightarrow>
      length r < length t \<and> (\<forall>m. length t - length r \<le> m \<longrightarrow> parse_elems m acc t = Some (vs, r))"
    and P: "parse_elems (Suc n) acc s = Some (vs, r)"
  shows "length r < length s \<and> (\<forall>m. length s - length r \<le> m \<longrightarrow> parse_elems m acc s = Some (vs, r))"
proof -
  obtain v r1 where v: "parse_value n s = Some (v, r1)"
    and alt: "(\<exists>r'. skip_ws r1 = CHR '']'' # r' \<and> r = r' \<and> vs = acc @ [v]) \<or>
       (\<exists>r''. skip_ws r1 = CHR '','' # r'' \<and> parse_elems n (acc @ [v]) r'' = Some (vs, r))"
    using parse_elems_SucE [OF P] by blast
  from V [OF v] have r1: "length r1 < length s"
    and Fv: "\<forall>m. length s - length r1 \<le> m \<longrightarrow> parse_value m s = Some (v, r1)" by blast+
  from alt show ?thesis
  proof (elim disjE exE conjE)
    fix r' assume c: "skip_ws r1 = CHR '']'' # r'" "r = r'" "vs = acc @ [v]"
    have lr: "length r < length r1" using skip_ws_Cons_shorter [OF c(1)] c(2) by simp
    have "parse_elems m acc s = Some (vs, r)" if "length s - length r \<le> m" for m
    proof (cases m)
      case (Suc m')
      with that lr have "parse_value m' s = Some (v, r1)" using Fv by simp
      then show ?thesis using Suc c by simp
    qed (use that lr r1 in simp)
    with lr r1 show ?thesis by simp
  next
    fix r'' assume c: "skip_ws r1 = CHR '','' # r''" "parse_elems n (acc @ [v]) r'' = Some (vs, r)"
    from E [OF c(2)] have lr: "length r < length r''"
      and Fe: "\<forall>m. length r'' - length r \<le> m \<longrightarrow> parse_elems m (acc @ [v]) r'' = Some (vs, r)" by blast+
    have l2: "length r'' < length r1" using skip_ws_Cons_shorter [OF c(1)] .
    have "parse_elems m acc s = Some (vs, r)" if "length s - length r \<le> m" for m
    proof (cases m)
      case (Suc m')
      with that lr l2 r1 have "length s - length r1 \<le> m'" "length r'' - length r \<le> m'" by simp_all
      with Fv Fe have "parse_value m' s = Some (v, r1)" "parse_elems m' (acc @ [v]) r'' = Some (vs, r)" by blast+
      then show ?thesis using Suc c(1) by simp
    qed (use that lr l2 r1 in simp)
    with lr l2 r1 show ?thesis by simp
  qed
qed

lemma parse_members_Suc_intro:
  "skip_ws s = DQ # r1 \<Longrightarrow> parse_chars r1 = Some (k, r0) \<Longrightarrow> skip_ws r0 = CHR '':'' # r2 \<Longrightarrow>
   parse_value m r2 = Some (v, r3) \<Longrightarrow> parse_members (Suc m) acc s =
     (case skip_ws r3 of y # r4 \<Rightarrow> if y = CHR '','' then parse_members m (acc @ [(k, v)]) r4
                                  else if y = CHR ''}'' then Some (acc @ [(k, v)], r4) else None | [] \<Rightarrow> None)"
  by simp
lemma parse_members_fuel_step:
  assumes V: "\<And>t v r. parse_value n t = Some (v, r) \<Longrightarrow>
      length r < length t \<and> (\<forall>m. length t - length r \<le> m \<longrightarrow> parse_value m t = Some (v, r))"
    and M: "\<And>acc t kvs r. parse_members n acc t = Some (kvs, r) \<Longrightarrow>
      length r < length t \<and> (\<forall>m. length t - length r \<le> m \<longrightarrow> parse_members m acc t = Some (kvs, r))"
    and P: "parse_members (Suc n) acc s = Some (kvs, r)"
  shows "length r < length s \<and> (\<forall>m. length s - length r \<le> m \<longrightarrow> parse_members m acc s = Some (kvs, r))"
proof -
  obtain k r1 r0 r2 v r3 where h: "skip_ws s = DQ # r1" "parse_chars r1 = Some (k, r0)" "skip_ws r0 = CHR '':'' # r2"
    and v: "parse_value n r2 = Some (v, r3)"
    and alt: "(\<exists>r'. skip_ws r3 = CHR ''}'' # r' \<and> r = r' \<and> kvs = acc @ [(k, v)]) \<or>
     (\<exists>r4. skip_ws r3 = CHR '','' # r4 \<and> parse_members n (acc @ [(k, v)]) r4 = Some (kvs, r))"
    by (rule parse_members_SucE2 [OF P])
  have l2: "length r2 < length s"
    using skip_ws_Cons_shorter [OF h(1)] parse_chars_shorter [OF h(2)] skip_ws_Cons_shorter [OF h(3)] by simp
  from V [OF v] have r3: "length r3 < length r2"
    and Fv: "\<forall>m. length r2 - length r3 \<le> m \<longrightarrow> parse_value m r2 = Some (v, r3)" by blast+
  from alt show ?thesis
  proof (elim disjE exE conjE)
    fix r' assume c: "skip_ws r3 = CHR ''}'' # r'" "r = r'" "kvs = acc @ [(k, v)]"
    have lr: "length r < length r3" using skip_ws_Cons_shorter [OF c(1)] c(2) by simp
    have "parse_members m acc s = Some (kvs, r)" if "length s - length r \<le> m" for m
    proof (cases m)
      case (Suc m')
      with that lr l2 have pv: "parse_value m' r2 = Some (v, r3)" using Fv by simp
      have "parse_members (Suc m') acc s = Some (kvs, r)"
        by (simp only: parse_members_Suc_intro [OF h pv]) (use c in simp)
      with Suc show ?thesis by simp
    qed (use that lr r3 l2 in simp)
    with lr r3 l2 show ?thesis by simp
  next
    fix r4 assume c: "skip_ws r3 = CHR '','' # r4" "parse_members n (acc @ [(k, v)]) r4 = Some (kvs, r)"
    from M [OF c(2)] have lr: "length r < length r4"
      and Fm: "\<forall>m. length r4 - length r \<le> m \<longrightarrow> parse_members m (acc @ [(k, v)]) r4 = Some (kvs, r)" by blast+
    have l4: "length r4 < length r3" using skip_ws_Cons_shorter [OF c(1)] .
    have "parse_members m acc s = Some (kvs, r)" if "length s - length r \<le> m" for m
    proof (cases m)
      case (Suc m')
      with that lr l4 r3 l2 have "length r2 - length r3 \<le> m'" "length r4 - length r \<le> m'" by simp_all
      with Fv Fm have pv: "parse_value m' r2 = Some (v, r3)"
        and pm: "parse_members m' (acc @ [(k, v)]) r4 = Some (kvs, r)" by blast+
      have "parse_members (Suc m') acc s = Some (kvs, r)"
        by (simp only: parse_members_Suc_intro [OF h pv]) (use c(1) pm in simp)
      with Suc show ?thesis by simp
    qed (use that lr l4 r3 l2 in simp)
    with lr l4 r3 l2 show ?thesis by simp
  qed
qed


lemma parse_fuel:
  "(\<forall>s v r. parse_value n s = Some (v, r) \<longrightarrow>
      length r < length s \<and> (\<forall>m. length s - length r \<le> m \<longrightarrow> parse_value m s = Some (v, r))) \<and>
   (\<forall>acc s vs r. parse_elems n acc s = Some (vs, r) \<longrightarrow>
      length r < length s \<and> (\<forall>m. length s - length r \<le> m \<longrightarrow> parse_elems m acc s = Some (vs, r))) \<and>
   (\<forall>acc s kvs r. parse_members n acc s = Some (kvs, r) \<longrightarrow>
      length r < length s \<and> (\<forall>m. length s - length r \<le> m \<longrightarrow> parse_members m acc s = Some (kvs, r)))"
proof (induction n)
  case (Suc n)
  then have V: "\<And>t v r. parse_value n t = Some (v, r) \<Longrightarrow>
      length r < length t \<and> (\<forall>m. length t - length r \<le> m \<longrightarrow> parse_value m t = Some (v, r))"
    and E: "\<And>acc t vs r. parse_elems n acc t = Some (vs, r) \<Longrightarrow>
      length r < length t \<and> (\<forall>m. length t - length r \<le> m \<longrightarrow> parse_elems m acc t = Some (vs, r))"
    and M: "\<And>acc t kvs r. parse_members n acc t = Some (kvs, r) \<Longrightarrow>
      length r < length t \<and> (\<forall>m. length t - length r \<le> m \<longrightarrow> parse_members m acc t = Some (kvs, r))"
    by blast+
  show ?case
    using parse_value_fuel_step [OF E M] parse_elems_fuel_step [OF V E] parse_members_fuel_step [OF V M]
    by blast
qed simp

lemma parse_value_enough_fuel:
  "parse_value n s = Some (v, r) \<Longrightarrow> length s - length r \<le> m \<Longrightarrow> parse_value m s = Some (v, r)"
  using parse_fuel [of n] by blast



end
