(* ===== verification/Spec2Isabelle.thy ===== *)
theory Spec2Isabelle
  imports HomeView Sections Json_Fuel
begin

text \<open>
  A verification development of the Orchids app clone: the chat client
  \<open>src/src/app/page.tsx\<close> sends the conversation to the route
  \<open>src/src/app/api/chat/route.ts\<close>, which relays a language model's answer as a
  server-sent event stream; the client accumulates the answer, extracts the delimited
  file blocks from the growing text, merges them at the end of the turn into the
  project's file list with an undo history, shows the files as a tree, compiles them
  into the document of a preview iframe, and saves the projects in \<open>localStorage\<close>.

  \<^bold>\<open>Library layout\<close> (each theory opens with what it holds).
  \<^item> \<open>Prelude\<close>: the JavaScript string builtins the sources call (\<open>split\<close>,
    \<open>join\<close>, \<open>trim\<close>, \<open>trimEnd\<close>, \<open>toLowerCase\<close>, \<open>startsWith\<close>/\<open>endsWith\<close> as
    \<open>prefix\<close>/\<open>suffix\<close>, \<open>replace\<close> with a string pattern and its \<open>$\<close> patterns).
  \<^item> \<open>FileBlocks\<close> (FileBlockParser, \<open>page.tsx\<close> 98--168): \<open>getLanguageFromPath\<close>,
    \<open>parseFilesFromResponse\<close>, \<open>stripFileBlocks\<close>; the file-block pattern is
    matched by one function per part, in ECMAScript's backtracking order; C1--C5:
    re-parsing a longer buffer keeps earlier blocks, parse and strip invert the wire
    grammar, an unterminated block is absent, the range of the language.
  \<^item> \<open>Store\<close> (ArtifactStore and HistoryManager, 776--809, 926--936): the \<open>Map\<close>
    merge as an association list, the live artifacts, \<open>saveToHistory\<close> with its JSON
    copy and cap of 20, undo, delete, rename; C6--C9 and C11--C15: the merge
    refines map override, undo inverts one merge, the cap evicts the oldest, the
    findings of delete and rename.
  \<^item> \<open>Json\<close>: \<open>JSON.stringify\<close>, \<open>JSON.parse\<close>, truthiness and property reads as the
    sources call them.  \<open>JSON.parse\<close> is a recursive descent with fuel, the length of
    the text: each nesting level and each element consumes at least one character,
    so the fuel never runs out on a text that parses.  C16: parse inverts stringify
    on every value whose numbers are JSON number texts.
  \<^item> \<open>Json_Fuel\<close>: the termination argument for that fuel.  Every successful call of
    the three parsing functions consumes input, and fuel equal to the characters it
    consumes is enough, by induction on the fuel over the three functions at once;
    C28: whatever any fuel parses as a complete text, \<open>JSON_parse\<close> returns, so the
    fuel-bounded definition is the total function of the standard.
  \<^item> \<open>Stream\<close> and \<open>Route\<close> (StreamIngestor on both ends, the route's \<open>POST\<close>):
    the line buffer, the \<open>data:\<close> record filter, the client read loop, the relay and
    the route's error responses; C17--C20, C22--C24 and, in this theory, C19:
    chunking does not matter, the relay forwards exactly the content of complete
    upstream lines, the client continues after \<open>[DONE]\<close> and drops a final partial
    line; the route's answers without a key and on an upstream error.
  \<^item> \<open>FileTree\<close> (FileTreeBuilder, 132--296): \<open>buildFileTree\<close> and the rows of
    \<open>FileTreeView\<close> (\<open>view_rows\<close>, a \<open>function\<close> terminating by the size of the
    forest under the sort), the folder toggle; C25--C27 and C29: names are distinct
    at every level, every file is found at its path, the view lists every node once,
    and the divergence from the prefix rule of the specification.
  \<^item> \<open>HomeState\<close> and \<open>Turn\<close> (the turn state machine of \<open>Home\<close>, 571--963): the
    state of the page as a record, the project handlers, persistence, and
    \<open>sendMessage\<close> cut at its \<open>await\<close>s into events that interleave with every user
    handler (\<open>home_step\<close>), with the values its closure captured made explicit;
    reachable states are an inductive set.  C31--C38: the invariant
    (\<open>isStreaming\<close> exactly while a turn runs, \<open>localStorage\<close> in step with the
    projects) by rule induction, one turn at a time, liveness (within one event every
    turn can end, after which a message is accepted), the lost update of the stale
    merge, the file leak into another project, the two error paths, and that the
    turn's read loop refines the StreamIngestor.
  \<^item> \<open>Regex\<close> and \<open>Preview\<close> (PreviewCompiler and SandboxHost, 411--566): a
    backtracking matcher for the four patterns of \<open>generateSrcDoc\<close> (\<open>rx_ends\<close>
    terminates by the lexicographic measure of pattern size and text length, the
    global replace by the text length), the document synthesis with the transpiler as
    a parameter, and the iframe's sandbox flags; C39: a file whose transform throws
    is as if absent.
  \<^item> \<open>HomeView\<close> (what \<open>Home\<close> renders, 298--409, 514--563, 964--1291, and the
    handlers with state of their own, 738--834): the page as a list of texts and
    controls with their enabled state and the events a click emits, so every UI
    action is a sequence of events of \<open>Turn\<close>; \<open>CodePreview\<close>, \<open>LivePreview\<close> and
    \<open>ArtifactBox\<close>; voice input, copy and downloads as small step functions.  C10:
    the Build button is enabled exactly when \<open>sendMessage\<close> acts; C21: a file with
    the extension \<open>__proto__\<close> crashes the render; C30: the artifact boxes of an answer
    are gone after switching back to its project.
  \<^item> \<open>Landing\<close> (\<open>benchmarks.tsx\<close>, \<open>hero.tsx\<close>): the rendered items of the
    benchmark cards and of the hero's tag line, the hover state of a tag and the hero
    chat box.
  \<^item> \<open>Sections\<close> (the other files of \<open>src/src/components/sections/\<close>): the header,
    the footer, the hero around its tag line and the five feature sections as the
    elements they render, with the parts shown only below or from the \<open>md\<close>
    breakpoint; lemmas on the header's links on a narrow screen, the links to routes
    the app does not have, and the placeholder links.  None of these components is
    imported by the app's page.
  \<^item> This theory: the stream end to end (C19) and a whole turn across client,
    route and upstream (C40).

  \<^bold>\<open>Environment.\<close> React runs handlers to completion and renders between two
  events, so a handler sees the state of the last render; functional updates
  \<open>setX(prev => ...)\<close> read the current state.  The upstream service, the transpiler
  sucrase and the network (how a body is cut into chunks) are parameters; ids and
  dates drawn by \<open>Math.random\<close> and \<open>Date\<close> are event arguments.

  \<^bold>\<open>Not modelled.\<close> The browser APIs behind voice input, image upload
  and downloads are modelled only by the events they deliver (a recognition result,
  a loaded data URL, the name, type and text of a download); scrolling, styling, the
  download of the whole project (\<open>JSON.stringify\<close> with indentation) and the
  run-time entry selection inside the preview iframe are not modelled;
  \<open>next.config.ts\<close> is build configuration.  Two \<open>sendMessage\<close> calls within one render (before
  \<open>isStreaming\<close> is seen) are outside the one-render-per-event assumption.  Text is
  a list of 8-bit characters: non-ASCII whitespace, line terminators and characters
  above U+00FF are outside the model.
\<close>

section \<open>The chat stream end to end\<close>


lemma split_on_lines:
  assumes "\<forall>l \<in> set ls. LF \<notin> set l"
  shows "split_on LF (concat (map (\<lambda>l. l @ [LF, LF]) ls) @ t) = concat (map (\<lambda>l. [l, []]) ls) @ split_on LF t"
  using assms
proof (induction ls)
  case (Cons l ls)
  then have "split_on LF ((l @ [LF, LF]) @ concat (map (\<lambda>l. l @ [LF, LF]) ls) @ t) =
      l # [] # split_on LF (concat (map (\<lambda>l. l @ [LF, LF]) ls) @ t)"
    using split_on_append_sep [of LF l "LF # concat (map (\<lambda>l. l @ [LF, LF]) ls) @ t"]
    by (simp add: split_on_no_sep_iff)
  with Cons show ?case by simp
qed simp

lemma client_fold_records:
  assumes "\<forall>v \<in> set vs. wf_jval v \<and> truthy v"
  shows "assistantContent (fold (\<lambda>l s. client_line fs s l) (concat (map (\<lambda>v. [record_line v, []]) vs)) st) =
         assistantContent st @ concat (map js_to_string vs)"
  using assms
  by (induction vs arbitrary: st) (simp_all add: client_line_record client_line_blank)

theorem stream_end_to_end:
  assumes "concat cs = concat (relay_stream chunks e)"
  shows "client_read fs cs =
     ([], fold (\<lambda>l s. client_line fs s l)
            (concat (map (\<lambda>v. [record_line v, []]) (upstream_values chunks)) @ [DATA_PREFIX @ DONE_SENTINEL, []])
            client_init)"
proof -
  let ?vs = "upstream_values chunks"
  have ok: "\<forall>v \<in> set ?vs. wf_jval v \<and> truthy v"
    by (auto simp: upstream_values_def List.map_filter_def dest: relay_value_ok)
  let ?L = "map record_line ?vs @ [DATA_PREFIX @ DONE_SENTINEL]"
  have c: "concat cs = concat (map (\<lambda>l. l @ [LF, LF]) ?L) @ []"
    using assms by (simp add: relay_stream_records content_record_line DONE_RECORD_def comp_def)
  have "\<forall>l \<in> set ?L. LF \<notin> set l"
    using ok record_no_LF by (auto simp: DATA_PREFIX_def DONE_SENTINEL_def)
  from split_on_lines [OF this, of "[]"]
  have "split_on LF (concat cs) = concat (map (\<lambda>l. [l, []]) ?L) @ [[]]"
    unfolding c by simp
  then have "split_on LF (concat cs) = concat (map (\<lambda>v. [record_line v, []]) ?vs) @ [DATA_PREFIX @ DONE_SENTINEL, [], []]"
    by (simp add: comp_def)
  then show ?thesis
    by (simp add: client_read_def feed_lines_fold butlast_append)
qed

lemma client_read_relay:
  assumes "concat cs = concat (relay_stream chunks e)"
  shows "fst (client_read fs cs) = [] \<and>
    assistantContent (snd (client_read fs cs)) = concat (map js_to_string (upstream_values chunks))"
proof -
  have ok: "\<forall>v \<in> set (upstream_values chunks). wf_jval v \<and> truthy v"
    by (auto simp: upstream_values_def List.map_filter_def dest: relay_value_ok)
  show ?thesis
    using stream_end_to_end [OF assms, of fs] client_fold_records [OF ok, of fs client_init]
    by (simp add: client_line_done client_line_blank client_init_def)
qed

text \<open>C19. Relay and client together: for every way the network cuts what the route sends,
  the client ends with an empty line buffer and an answer that is the concatenation of
  the content fragments of the upstream's complete lines, in order, none lost or
  repeated.  This holds also when the upstream body ended with a read error.\<close>

theorem stream_content_end_to_end:
  assumes "concat cs = concat (relay_stream chunks e)"
  shows "fst (client_read fs cs) = [] \<and>
    assistantContent (snd (client_read fs cs)) = concat (map js_to_string (upstream_values chunks))"
  using assms by (rule client_read_relay)

theorem stream_content_end_to_end_witness:
  "concat [take 9 (concat (relay_stream [DATA_PREFIX @ json_stringify (JObj [(''choices'', JArr [JObj [(''delta'', JObj [(''content'', JStr ''Hi'')])]])]) @ [LF]] ReadError)),
           drop 9 (concat (relay_stream [DATA_PREFIX @ json_stringify (JObj [(''choices'', JArr [JObj [(''delta'', JObj [(''content'', JStr ''Hi'')])]])]) @ [LF]] ReadError))]
     = concat (relay_stream [DATA_PREFIX @ json_stringify (JObj [(''choices'', JArr [JObj [(''delta'', JObj [(''content'', JStr ''Hi'')])]])]) @ [LF]] ReadError) \<and>
   assistantContent (snd (client_read [] [take 9 (concat (relay_stream [DATA_PREFIX @ json_stringify (JObj [(''choices'', JArr [JObj [(''delta'', JObj [(''content'', JStr ''Hi'')])]])]) @ [LF]] ReadError)),
           drop 9 (concat (relay_stream [DATA_PREFIX @ json_stringify (JObj [(''choices'', JArr [JObj [(''delta'', JObj [(''content'', JStr ''Hi'')])]])]) @ [LF]] ReadError))])) = ''Hi''"
proof -
  let ?up = "[DATA_PREFIX @ json_stringify (JObj [(''choices'', JArr [JObj [(''delta'', JObj [(''content'', JStr ''Hi'')])]])]) @ [LF]]"
  let ?out = "concat (relay_stream ?up ReadError)"
  have h: "concat [take 9 ?out, drop 9 ?out] = ?out" by simp
  have v: "upstream_values ?up = [JStr ''Hi'']" by code_simp
  from stream_content_end_to_end [OF h, of "[]"] v h show ?thesis by simp
qed

section \<open>A turn end to end: client, route and upstream\<close>

text \<open>What the client's \<open>fetch\<close> sees of the route's answer: \<open>NextResponse.json\<close> with
  its status, or the \<open>Response\<close> of the event stream, status 200; both have a body.\<close>

definition fetch_result :: "http_response \<Rightarrow> fetch_outcome" where
  "fetch_result r = (case r of JsonResponse st v \<Rightarrow> Response st True | EventStream out \<Rightarrow> Response 200 True)"

lemma wf_api_message: "wf_jval (api_message m)"
  by (simp add: api_message_def)

lemma JSON_parse_api_body:
  "JSON_parse (api_body msgs model) = Some (JObj [(''messages'', JArr (map api_message msgs)), (''model'', JStr model)])"
  unfolding api_body_def by (rule JSON_parse_stringify) (simp add: wf_api_message list_all_iff)

lemma POST_api_body:
  assumes "k \<noteq> []" "fetch (upstream_request (map api_message msgs) (Some (JStr model))) = UpResponse st (Some (chunks, e))"
    and "200 \<le> st" "st \<le> 299"
  shows "POST (Some k) fetch (api_body msgs model) = EventStream (relay_stream chunks e)"
  using assms by (simp add: POST_def JSON_parse_api_body spread_iterable_def)

lemma pmessages_update:
  assumes "p \<in> set (map (\<lambda>p. if pid p = a then p\<lparr>files := ff, pmessages := ms\<rparr> else p) ps)" "pid p = a"
  shows "pmessages p = ms"
proof -
  from assms(1) obtain q where q: "p = (if pid q = a then q\<lparr>files := ff, pmessages := ms\<rparr> else q)"
    unfolding set_map by blast
  show ?thesis
  proof (cases "pid q = a")
    case False
    with q assms(2) show ?thesis by simp
  qed (use q in simp)
qed

lemma chunk_projects: "projects (home_step (Chunk x) s) = projects s"
  by (simp add: home_step_def turn_chunk_def split: option.split phase.split prod.split)

lemma chunks_projects: "projects (home_run (map Chunk cs) s) = projects s"
  unfolding home_run_def by (induction cs arbitrary: s) (simp_all add: chunk_projects)

lemma turn_run_split:
  "home_run (Fetched r # map Chunk cs @ [StreamEnd i d]) s =
     home_step (StreamEnd i d) (home_run (map Chunk cs) (home_step (Fetched r) s))"
  by (simp add: home_run_def)

lemma stream_end_projects:
  assumes "running s = Some t" "t_phase t = Reading b c" "t_pid t = Some a"
  shows "\<exists>ff. projects (home_step (StreamEnd i d) s) =
      map (\<lambda>p. if pid p = a then p\<lparr>files := ff,
        pmessages := t_messages t @ [\<lparr>role = Assistant, msg_content = assistantContent c, image = None, artifacts = Some []\<rparr>]\<rparr> else p) (projects s) \<and>
    \<not> isStreaming (home_step (StreamEnd i d) s)"
proof -
  let ?ff = "if parseFilesFromResponse (assistantContent c) \<noteq> [] then merge_files (t_files t) (parseFilesFromResponse (assistantContent c)) else t_files t"
  have "projects (home_step (StreamEnd i d) s) =
      map (\<lambda>p. if pid p = a then p\<lparr>files := ?ff,
        pmessages := t_messages t @ [\<lparr>role = Assistant, msg_content = assistantContent c, image = None, artifacts = Some []\<rparr>]\<rparr> else p) (projects s) \<and>
    \<not> isStreaming (home_step (StreamEnd i d) s)"
    using assms by (simp add: home_step_def turn_end_def turn_finally_def updateCurrentProject_def Let_def)
  then show ?thesis by blast
qed

text \<open>C40. A turn end to end: the route parses the body \<open>sendMessage\<close> sends and
  answers with the relay of the upstream stream; for every way the network cuts that
  answer, the turn ends and the project it started in is saved with the user's
  messages and one assistant message holding the upstream's content fragments, in
  order, none lost or repeated.\<close>

theorem turn_end_to_end:
  assumes "running s = Some t" "t_phase t = Fetching" "t_pid t = Some a" "k \<noteq> []"
    and "fetch (upstream_request (map api_message (t_messages t)) (Some (JStr (t_model t)))) = UpResponse st (Some (chunks, e))"
    and "200 \<le> st" "st \<le> 299" "concat cs = concat (relay_stream chunks e)"
  shows "POST (Some k) fetch (api_body (t_messages t) (t_model t)) = EventStream (relay_stream chunks e) \<and>
    \<not> isStreaming (home_run (Fetched (fetch_result (POST (Some k) fetch (api_body (t_messages t) (t_model t)))) # map Chunk cs @ [StreamEnd i d]) s) \<and>
    map pid (projects (home_run (Fetched (fetch_result (POST (Some k) fetch (api_body (t_messages t) (t_model t)))) # map Chunk cs @ [StreamEnd i d]) s)) =
      map pid (projects s) \<and>
    (\<forall>p \<in> set (projects (home_run (Fetched (fetch_result (POST (Some k) fetch (api_body (t_messages t) (t_model t)))) # map Chunk cs @ [StreamEnd i d]) s)).
       pid p = a \<longrightarrow> pmessages p = t_messages t @ [\<lparr>role = Assistant, msg_content = concat (map js_to_string (upstream_values chunks)),
                                                     image = None, artifacts = Some []\<rparr>])"
proof -
  have post: "POST (Some k) fetch (api_body (t_messages t) (t_model t)) = EventStream (relay_stream chunks e)"
    using POST_api_body [of k fetch "t_messages t" "t_model t" st chunks e, OF assms(4,5,6,7)] .
  define s1 where "s1 = home_step (Fetched (Response 200 True)) s"
  have r1: "running s1 = Some (t\<lparr>t_phase := Reading [] client_init\<rparr>)" "projects s1 = projects s"
    using assms(1,2) by (simp_all add: s1_def home_step_def turn_fetched_def)
  define s2 where "s2 = home_run (map Chunk cs) s1"
  define c where "c = snd (client_read (t_files t) cs)"
  define t2 where "t2 = t\<lparr>t_phase := Reading (fst (client_read (t_files t) cs)) c\<rparr>"
  have r2: "running s2 = Some t2"
    using chunks_running [OF r1(1), of "[]" client_init cs] by (simp add: s2_def c_def t2_def client_read_def)
  have t2: "t_phase t2 = Reading (fst (client_read (t_files t) cs)) c" "t_pid t2 = Some a" "t_messages t2 = t_messages t"
    using assms(3) by (simp_all add: t2_def)
  have p2: "projects s2 = projects s" using chunks_projects r1(2) by (simp add: s2_def)
  have content: "assistantContent c = concat (map js_to_string (upstream_values chunks))"
    using client_read_relay [OF assms(8)] by (simp add: c_def)
  define s3 where "s3 = home_step (StreamEnd i d) s2"
  have run: "home_run (Fetched (fetch_result (POST (Some k) fetch (api_body (t_messages t) (t_model t)))) # map Chunk cs @ [StreamEnd i d]) s = s3"
    unfolding post fetch_result_def turn_run_split s3_def s2_def s1_def by simp
  from stream_end_projects [OF r2 t2(1) t2(2), of i d]
  obtain ff where
    s3: "projects s3 = map (\<lambda>p. if pid p = a then p\<lparr>files := ff,
        pmessages := t_messages t @ [\<lparr>role = Assistant, msg_content = assistantContent c, image = None, artifacts = Some []\<rparr>]\<rparr> else p) (projects s)"
    "\<not> isStreaming s3"
    unfolding t2(3) p2 s3_def by blast
  have pids: "map pid (projects s3) = map pid (projects s)"
    unfolding s3(1) by (simp add: comp_def)
  have msgs: "\<forall>p \<in> set (projects s3). pid p = a \<longrightarrow> pmessages p = t_messages t @ [\<lparr>role = Assistant,
      msg_content = concat (map js_to_string (upstream_values chunks)), image = None, artifacts = Some []\<rparr>]"
    unfolding content [symmetric] s3(1) using pmessages_update by blast
  show ?thesis
    unfolding run using post s3(2) pids msgs by blast
qed


theorem turn_end_to_end_witness:
  "map pmessages (projects (home_run
      (Fetched (fetch_result (POST (Some ''key'') (\<lambda>b. UpResponse 200 (Some ([DATA_PREFIX @ json_stringify (JObj [(''choices'', JArr [JObj [(''delta'', JObj [(''content'', JStr ''Hi'')])]])]) @ [LF]], ReadDone))) (api_body [] [])))
       # map Chunk [concat (relay_stream [DATA_PREFIX @ json_stringify (JObj [(''choices'', JArr [JObj [(''delta'', JObj [(''content'', JStr ''Hi'')])]])]) @ [LF]] ReadDone)] @ [StreamEnd ''i'' ''d''])
      ((home_init None)\<lparr>projects := [\<lparr>pid = ''A'', pname = [], files = [], pmessages = [], createdAt = []\<rparr>], isStreaming := True,
         running := Some \<lparr>t_files = [], t_messages = [], t_pid = Some ''A'', t_model = [], t_phase = Fetching\<rparr>\<rparr>)))
   = [[\<lparr>role = Assistant, msg_content = ''Hi'', image = None, artifacts = Some []\<rparr>]]"
proof -
  let ?up = "[DATA_PREFIX @ json_stringify (JObj [(''choices'', JArr [JObj [(''delta'', JObj [(''content'', JStr ''Hi'')])]])]) @ [LF]]"
  let ?s = "(home_init None)\<lparr>projects := [\<lparr>pid = ''A'', pname = [], files = [], pmessages = [], createdAt = []\<rparr>], isStreaming := True,
         running := Some \<lparr>t_files = [], t_messages = [], t_pid = Some ''A'', t_model = [], t_phase = Fetching\<rparr>\<rparr>"
  have v: "upstream_values ?up = [JStr ''Hi'']" by code_simp
  let ?t = "\<lparr>t_files = [], t_messages = [], t_pid = Some ''A'', t_model = [], t_phase = Fetching\<rparr>"
  have h: "running ?s = Some ?t" "t_phase ?t = Fetching" "t_pid ?t = Some ''A''" "''key'' \<noteq> []"
    "(\<lambda>b. UpResponse 200 (Some (?up, ReadDone))) (upstream_request (map api_message (t_messages ?t)) (Some (JStr (t_model ?t))))
       = UpResponse 200 (Some (?up, ReadDone))"
    "200 \<le> (200::nat)" "(200::nat) \<le> 299" "concat [concat (relay_stream ?up ReadDone)] = concat (relay_stream ?up ReadDone)"
    by simp_all
  from turn_end_to_end [OF h, of "''i''" "''d''"] v show ?thesis
    by (auto simp: map_eq_Cons_conv)
qed

end
